theory Spec2Isabelle
  imports Main
begin

section \<open>The world the program runs in\<close>

text \<open>
  The module \<open>grey_lit_search/utils.py\<close> talks to two collaborators: the local file
  system (through \<open>os.makedirs\<close>, \<open>os.path\<close> and \<open>open\<close>) and the network (through
  \<open>requests.get\<close>). Both are made explicit. Every operation takes the world and
  returns the world it leaves behind together with either a value or the exception it
  raised, so an exception that propagates out of a Python function is the \<open>Inl\<close> branch
  of the model, and what was done before the exception stays done.

  Strings are byte strings (\<open>char list\<close>); text written with \<open>encoding="utf-8"\<close> is
  taken as already encoded, and \<open>webpage.text\<close> is taken to be the body of the response.
  The logger calls have no effect on files, requests or control flow and are left out.
  \<open>warnings.warn\<close> is taken under Python's default warning filter: it records the
  warning and returns; a filter that turns warnings into exceptions is not modelled.
  The file system is a tree of directories and regular files without symbolic links,
  permissions or limits on names and space: an operation fails only because of what
  the tree holds.
\<close>

datatype py_exc =
    HTTPError
  | Timeout
  | RequestException
  | FileNotFoundError
  | FileExistsError
  | IsADirectoryError
  | NotADirectoryError

datatype node = Dir | File string

record request =
  url :: string
  req_headers :: "(string \<times> string) list"
  allow_redirects :: bool
  req_timeout :: "nat option"

record response =
  status_code :: nat
  content :: string

text \<open>
  The calls the program issues, in the order it issues them. A call is recorded when it
  is made, whether or not it then succeeds.
\<close>

datatype event =
    Makedirs string
  | OpenWrite string string
  | OpenAppend string string
  | Get request
  | Warn string

text \<open>
  A directory tree maps a node (the list of the names that lead to it from the root) to
  what is stored there. The root is the empty list and is always a directory.
\<close>

type_synonym tree = "string list \<rightharpoonup> node"

record world =
  cwd :: "string list"
  nodes :: tree
  events :: "event list"

type_synonym 'a result = "(py_exc + 'a) \<times> world"

type_synonym network = "request \<Rightarrow> py_exc + response"

definition log_event :: "event \<Rightarrow> world \<Rightarrow> world" where
  "log_event e w = w\<lparr>events := events w @ [e]\<rparr>"

text \<open>Sequencing: the second step runs only when the first one returned.\<close>

definition and_then :: "'a result \<Rightarrow> ('a \<Rightarrow> world \<Rightarrow> 'b result) \<Rightarrow> 'b result" where
  "and_then r f = (case r of (Inl e, w) \<Rightarrow> (Inl e, w) | (Inr x, w) \<Rightarrow> f x w)"

section \<open>Strings and paths\<close>

subsection \<open>\<open>str\<close> of an integer and \<open>str.zfill\<close>\<close>

definition decimal_digits :: string where
  "decimal_digits = ''0123456789''"

definition digit_char :: "nat \<Rightarrow> char" where
  "digit_char d = decimal_digits ! d"

fun str_nat :: "nat \<Rightarrow> string" where
  "str_nat n = (if n < 10 then [digit_char n] else str_nat (n div 10) @ [digit_char (n mod 10)])"

declare str_nat.simps [simp del]

definition str_int :: "int \<Rightarrow> string" where
  "str_int i = (if i < 0 then CHR ''-'' # str_nat (nat (- i)) else str_nat (nat i))"

text \<open>
  \<open>s.zfill(width)\<close>: a string at least \<open>width\<close> long is returned as it is; a shorter one
  is filled with zeros on the left, after a leading sign if it has one.
\<close>

definition zfill :: "nat \<Rightarrow> string \<Rightarrow> string" where
  "zfill width s =
     (if width \<le> length s then s
      else if s \<noteq> [] \<and> (hd s = CHR ''+'' \<or> hd s = CHR ''-'')
        then hd s # replicate (width - length s) CHR ''0'' @ tl s
      else replicate (width - length s) CHR ''0'' @ s)"

subsection \<open>\<open>os.path\<close> (POSIX)\<close>

text \<open>\<open>os.path.join(a, b)\<close> for two arguments.\<close>

definition path_join :: "string \<Rightarrow> string \<Rightarrow> string" where
  "path_join a b =
     (if b \<noteq> [] \<and> hd b = CHR ''/'' then b
      else if a = [] \<or> last a = CHR ''/'' then a @ b
      else a @ ''/'' @ b)"

text \<open>\<open>os.path.basename(p)\<close>: what follows the last slash.\<close>

definition basename :: "string \<Rightarrow> string" where
  "basename p = rev (takeWhile (\<lambda>c. c \<noteq> CHR ''/'') (rev p))"

text \<open>
  \<open>os.path.dirname(p)\<close>: what precedes the basename, without its trailing slashes unless
  it consists of slashes only.
\<close>

definition dirname :: "string \<Rightarrow> string" where
  "dirname p =
     (let head = rev (dropWhile (\<lambda>c. c \<noteq> CHR ''/'') (rev p))
      in if head \<noteq> [] \<and> \<not> list_all (\<lambda>c. c = CHR ''/'') head
         then rev (dropWhile (\<lambda>c. c = CHR ''/'') (rev head))
         else head)"

text \<open>The Python test \<open>needle in haystack\<close> on strings.\<close>

fun contains :: "string \<Rightarrow> string \<Rightarrow> bool" where
  "contains needle [] = (needle = [])"
| "contains needle (c # cs) = (take (length needle) (c # cs) = needle \<or> contains needle cs)"

subsection \<open>Paths and the nodes they name\<close>

text \<open>
  A path is split at its slashes into components. Walking a path starts at the root for
  an absolute path and at the working directory for a relative one; an empty component
  and \<open>.\<close> stay where they are, \<open>..\<close> goes to the parent (the root is its own parent), any
  other component goes to the entry of that name.
\<close>

fun split_sep :: "string \<Rightarrow> string list" where
  "split_sep [] = [[]]"
| "split_sep (c # cs) =
     (if c = CHR ''/'' then [] # split_sep cs
      else (c # hd (split_sep cs)) # tl (split_sep cs))"

definition start_dir :: "world \<Rightarrow> string \<Rightarrow> string list" where
  "start_dir w p = (if p \<noteq> [] \<and> hd p = CHR ''/'' then [] else cwd w)"

definition step :: "string list \<Rightarrow> string \<Rightarrow> string list" where
  "step cur c = (if c = [] \<or> c = ''.'' then cur else if c = ''..'' then butlast cur else cur @ [c])"

text \<open>A path whose last component is empty, \<open>.\<close> or \<open>..\<close> can only name a directory.\<close>

definition names_directory :: "string \<Rightarrow> bool" where
  "names_directory p = (last (split_sep p) = [] \<or> last (split_sep p) = ''.'' \<or> last (split_sep p) = ''..'')"

section \<open>File system and network primitives\<close>

definition is_dir :: "tree \<Rightarrow> string list \<Rightarrow> bool" where
  "is_dir t q = (q = [] \<or> t q = Some Dir)"

definition is_file :: "tree \<Rightarrow> string list \<Rightarrow> bool" where
  "is_file t q = (q \<noteq> [] \<and> (case t q of Some (File _) \<Rightarrow> True | _ \<Rightarrow> False))"

text \<open>
  The operating system walks a path component by component, and every component is
  taken from a directory that exists: going through a regular file raises
  \<open>NotADirectoryError\<close>, going through a missing entry raises \<open>FileNotFoundError\<close>. The
  walk returns the node the path names, which need not exist. The empty path names
  nothing.
\<close>

definition not_a_dir :: "tree \<Rightarrow> string list \<Rightarrow> py_exc" where
  "not_a_dir t cur = (if is_file t cur then NotADirectoryError else FileNotFoundError)"

fun walk :: "tree \<Rightarrow> string list \<Rightarrow> string list \<Rightarrow> py_exc + string list" where
  "walk t cur [] = Inr cur"
| "walk t cur (c # cs) = (if is_dir t cur then walk t (step cur c) cs else Inl (not_a_dir t cur))"

definition lookup :: "world \<Rightarrow> string \<Rightarrow> py_exc + string list" where
  "lookup w p =
     (if p = [] then Inl FileNotFoundError
      else walk (nodes w) (start_dir w p) (split_sep p))"

text \<open>
  \<open>os.makedirs(name, exist_ok=True)\<close> creates every missing directory on the way, from
  left to right, and in the end the path must name a directory. A regular file in the
  way stops it with the exception \<open>mkdir\<close> raises there: \<open>FileExistsError\<close> when nothing
  but slashes follows the file's name, \<open>NotADirectoryError\<close> otherwise. Directories
  created before the failure stay. So \<open>a/../b\<close> creates \<open>a\<close> as well as \<open>b\<close>.
\<close>

fun mkdirs_walk :: "tree \<Rightarrow> string list \<Rightarrow> string list \<Rightarrow> py_exc option \<times> tree" where
  "mkdirs_walk t cur [] = (if is_dir t cur then None else Some (not_a_dir t cur), t)"
| "mkdirs_walk t cur (c # cs) =
     (if \<not> is_dir t cur then (Some (not_a_dir t cur), t)
      else if c = [] \<or> c = ''.'' \<or> c = ''..'' then mkdirs_walk t (step cur c) cs
      else if is_file t (cur @ [c])
        then (Some (if list_all (\<lambda>d. d = []) cs then FileExistsError else NotADirectoryError), t)
      else if is_dir t (cur @ [c]) then mkdirs_walk t (cur @ [c]) cs
      else mkdirs_walk (t(cur @ [c] \<mapsto> Dir)) (cur @ [c]) cs)"

definition makedirs :: "string \<Rightarrow> world \<Rightarrow> unit result" where
  "makedirs name w =
     (let w1 = log_event (Makedirs name) w
      in if name = [] then (Inl FileNotFoundError, w1)
         else (case mkdirs_walk (nodes w1) (start_dir w1 name) (split_sep name) of
                 (Some e, t) \<Rightarrow> (Inl e, w1\<lparr>nodes := t\<rparr>)
               | (None, t) \<Rightarrow> (Inr (), w1\<lparr>nodes := t\<rparr>)))"

text \<open>
  Opening a file for writing or appending walks the path and fails when the walk
  fails or when the path names a directory; otherwise it gives the node of the file,
  which is created if missing. Slashes at the end of the path are not components of
  the walk: with them the path names a directory whatever its last entry is.
\<close>

definition strip_slashes :: "string \<Rightarrow> string" where
  "strip_slashes p = rev (dropWhile (\<lambda>c. c = CHR ''/'') (rev p))"

definition open_target :: "world \<Rightarrow> string \<Rightarrow> py_exc + string list" where
  "open_target w p =
     (if p = [] then Inl FileNotFoundError
      else case walk (nodes w) (start_dir w p) (split_sep (strip_slashes p)) of
             Inl e \<Rightarrow> Inl e
           | Inr q \<Rightarrow>
               if is_dir (nodes w) q \<or> names_directory p then Inl IsADirectoryError else Inr q)"

text \<open>\<open>with open(p, "w") as fid: fid.write(data)\<close>, also for mode \<open>"wb"\<close>.\<close>

definition open_write :: "string \<Rightarrow> string \<Rightarrow> world \<Rightarrow> unit result" where
  "open_write p data w =
     (let w1 = log_event (OpenWrite p data) w
      in case open_target w1 p of
           Inl e \<Rightarrow> (Inl e, w1)
         | Inr q \<Rightarrow> (Inr (), w1\<lparr>nodes := (nodes w1)(q \<mapsto> File data)\<rparr>))"

text \<open>\<open>with open(p, "a") as fid: fid.write(data)\<close>.\<close>

definition open_append :: "string \<Rightarrow> string \<Rightarrow> world \<Rightarrow> unit result" where
  "open_append p data w =
     (let w1 = log_event (OpenAppend p data) w
      in case open_target w1 p of
           Inl e \<Rightarrow> (Inl e, w1)
         | Inr q \<Rightarrow>
             (Inr (), w1\<lparr>nodes := (nodes w1)(q \<mapsto>
                File ((case nodes w1 q of Some (File old) \<Rightarrow> old | _ \<Rightarrow> []) @ data))\<rparr>))"

text \<open>\<open>os.path.isfile(p)\<close> and \<open>os.path.isdir(p)\<close>.\<close>

definition isfile :: "world \<Rightarrow> string \<Rightarrow> bool" where
  "isfile w p = (case lookup w p of Inl e \<Rightarrow> False | Inr q \<Rightarrow> is_file (nodes w) q)"

definition isdir :: "world \<Rightarrow> string \<Rightarrow> bool" where
  "isdir w p = (case lookup w p of Inl e \<Rightarrow> False | Inr q \<Rightarrow> is_dir (nodes w) q)"

text \<open>
  \<open>requests.get\<close>: the request is sent and the network answers with a response or
  raises. \<open>raise_for_status\<close> raises \<open>HTTPError\<close> for the client and server error codes.
\<close>

definition requests_get :: "network \<Rightarrow> request \<Rightarrow> world \<Rightarrow> response result" where
  "requests_get net req w = (net req, log_event (Get req) w)"

definition raise_for_status :: "response \<Rightarrow> world \<Rightarrow> unit result" where
  "raise_for_status page w =
     (if 400 \<le> status_code page \<and> status_code page < 600 then (Inl HTTPError, w) else (Inr (), w))"

definition warnings_warn :: "string \<Rightarrow> world \<Rightarrow> world" where
  "warnings_warn msg w = log_event (Warn msg) w"

section \<open>The module \<open>utils.py\<close>\<close>

definition headers :: "(string \<times> string) list" where
  "headers = [(''User-Agent'', ''Mozilla/5.0 (Macintosh; Intel Mac OS X 10_15_7) AppleWebKit/537.36 (KHTML, like Gecko) Chrome/97.0.4692.99 Safari/537.36'')]"

definition results_summary :: "int \<Rightarrow> string \<Rightarrow> string \<Rightarrow> string \<Rightarrow> world \<Rightarrow> unit result" where
  "results_summary search_num title link base_dir w =
     and_then (makedirs base_dir w) (\<lambda>_ w.
       let summary_file = path_join base_dir ''results_summary.csv''
       in and_then
            (if \<not> isfile w summary_file
               then open_write summary_file (''search number, title, link'' @ [CHR 0x0A]) w
             else (Inr (), w))
            (\<lambda>_ w. open_append summary_file
               (zfill 3 (str_int search_num) @ '', '' @ title @ '', '' @ link @ [CHR 0x0A]) w))"

definition write_timeout_msg :: "string \<Rightarrow> string \<Rightarrow> world \<Rightarrow> unit result" where
  "write_timeout_msg fname link w =
     and_then (makedirs (dirname fname) w) (\<lambda>_ w.
       open_write (fname @ ''.timedout.txt'')
         (''timed out when trying to download,''
          @ '' please manually download using the link below'' @ [CHR 0x0A]
          @ link) w)"

definition write_fail_msg :: "string \<Rightarrow> string \<Rightarrow> world \<Rightarrow> unit result" where
  "write_fail_msg fname link w =
     and_then (makedirs (dirname fname) w) (\<lambda>_ w.
       open_write (fname @ ''.404error.txt'')
         (''recieved 404 error when trying to download'' @ [CHR 0x0A] @ link) w)"

definition write_generic_fail_msg :: "string \<Rightarrow> string \<Rightarrow> world \<Rightarrow> unit result" where
  "write_generic_fail_msg fname link w =
     and_then (makedirs (dirname fname) w) (\<lambda>_ w.
       open_write (fname @ ''.failed.txt'')
         (''recieved an error when trying to download'' @ [CHR 0x0A] @ link) w)"

text \<open>
  The body of the \<open>try\<close> block of \<open>save_pdf\<close>. The request carries the literal timeout
  \<open>60\<close> of the source line \<open>requests.get(link, allow_redirects=True, headers=headers,
  timeout=60)\<close>.
\<close>

definition download :: "network \<Rightarrow> string \<Rightarrow> string \<Rightarrow> world \<Rightarrow> unit result" where
  "download net link fname w =
     and_then
       (requests_get net
          \<lparr>url = link, req_headers = headers, allow_redirects = True, req_timeout = Some 60\<rparr> w)
       (\<lambda>page w. and_then (raise_for_status page w) (\<lambda>_ w. open_write fname (content page) w))"

text \<open>
  \<open>save_pdf(search_num, link, base_dir, timeout)\<close>. The \<open>except\<close> clauses are tried in
  the order of the source: \<open>HTTPError\<close>, \<open>Timeout\<close>, then every other exception.
\<close>

definition save_pdf :: "network \<Rightarrow> int \<Rightarrow> string \<Rightarrow> string \<Rightarrow> nat \<Rightarrow> world \<Rightarrow> unit result" where
  "save_pdf net search_num link base_dir timeout w =
     (let save_dir = path_join base_dir (zfill 3 (str_int search_num))
      in and_then (makedirs save_dir w) (\<lambda>_ w.
           let fname = path_join save_dir (basename link)
           in case download net link fname w of
                (Inr u, w') \<Rightarrow> (Inr u, w')
              | (Inl e, w') \<Rightarrow>
                  if e = HTTPError then write_fail_msg fname link w'
                  else if e = Timeout then write_timeout_msg fname link w'
                  else write_generic_fail_msg fname link w'))"

definition save_link :: "int \<Rightarrow> string \<Rightarrow> string \<Rightarrow> world \<Rightarrow> unit result" where
  "save_link search_num link base_dir w =
     (let save_dir = path_join base_dir (zfill 3 (str_int search_num))
      in and_then (makedirs save_dir w) (\<lambda>_ w.
           let fname = path_join save_dir ''website_link.txt''
           in open_write fname link w))"

definition save_google_search :: "string \<Rightarrow> string \<Rightarrow> string \<Rightarrow> world \<Rightarrow> unit result" where
  "save_google_search url' webpage_text base_dir w =
     and_then (makedirs base_dir w) (\<lambda>_ w.
       and_then (open_write (path_join base_dir ''google-search-term.txt'') url' w) (\<lambda>_ w.
         open_write (path_join base_dir ''google-search-result.html'') webpage_text w))"

text \<open>
  \<open>get_webpage(url, results, base_dir)\<close>. The request is sent with the module's headers
  and no timeout; \<open>webpage.text\<close> is the body of the response.
\<close>

definition get_webpage :: "network \<Rightarrow> string \<Rightarrow> int \<Rightarrow> string \<Rightarrow> world \<Rightarrow> string result" where
  "get_webpage net url0 results base_dir w =
     (let w1 = (if results > 100
                  then warnings_warn ''More than 100 search results not implemented, setting to 100'' w
                else w);
          results1 = (if results > 100 then 100 else results);
          url1 = url0 @ ''&num='' @ str_int results1
      in and_then
           (requests_get net
              \<lparr>url = url1, req_headers = headers, allow_redirects = True, req_timeout = None\<rparr> w1)
           (\<lambda>webpage w.
              and_then (save_google_search url1 (content webpage) base_dir w) (\<lambda>_ w.
                (Inr (content webpage), w))))"

text \<open>
  A search result as the parser \<open>get_search_results\<close> of the module
  \<open>grey_lit_search.google\<close> yields it. The parser is a parameter of the model: it
  takes the page and the kind of search and gives the results in order.
\<close>

record search_result =
  title :: string
  primary_link :: string
  do_download :: bool

type_synonym parser = "string \<Rightarrow> string \<Rightarrow> search_result list"

text \<open>\<open>enumerate(xs, start)\<close>; the loop uses the default start \<open>0\<close>.\<close>

fun enumerate_from :: "int \<Rightarrow> 'a list \<Rightarrow> (int \<times> 'a) list" where
  "enumerate_from start [] = []"
| "enumerate_from start (x # xs) = (start, x) # enumerate_from (start + 1) xs"

definition enumerate :: "'a list \<Rightarrow> (int \<times> 'a) list" where
  "enumerate xs = enumerate_from 0 xs"

text \<open>The body of the \<open>for\<close> loop of \<open>search_and_download\<close>, for one result.\<close>

definition process_result :: "network \<Rightarrow> string \<Rightarrow> int \<Rightarrow> search_result \<Rightarrow> world \<Rightarrow> unit result" where
  "process_result net search_time indx search w =
     and_then (results_summary indx (title search) (primary_link search) search_time w) (\<lambda>_ w.
       if do_download search then save_pdf net indx (primary_link search) search_time 60 w
       else save_link indx (primary_link search) search_time w)"

fun process_results :: "network \<Rightarrow> string \<Rightarrow> (int \<times> search_result) list \<Rightarrow> world \<Rightarrow> unit result" where
  "process_results net search_time [] w = (Inr (), w)"
| "process_results net search_time ((indx, search) # rest) w =
     and_then (process_result net search_time indx search w) (\<lambda>_ w.
       process_results net search_time rest w)"

text \<open>
  \<open>search_and_download(url, results)\<close>. The session directory \<open>search_time\<close> is the UTC
  time of the call, formatted; the clock's reading is a parameter.
\<close>

definition search_and_download ::
    "network \<Rightarrow> parser \<Rightarrow> string \<Rightarrow> string \<Rightarrow> int \<Rightarrow> world \<Rightarrow> unit result" where
  "search_and_download net get_search_results search_time url0 results w =
     and_then (get_webpage net url0 results search_time w) (\<lambda>webpage w.
       let search = (if contains ''scholar.google'' url0 then ''scholar'' else ''google'')
       in process_results net search_time (enumerate (get_search_results webpage search)) w)"

section \<open>Notions used to state the properties\<close>

text \<open>
  A plain name is a path component that names an entry of a directory: it is not empty,
  has no slash and is neither \<open>.\<close> nor \<open>..\<close>.
\<close>

definition plain_name :: "string \<Rightarrow> bool" where
  "plain_name b = (b \<noteq> [] \<and> CHR ''/'' \<notin> set b \<and> b \<noteq> ''.'' \<and> b \<noteq> ''..'')"

text \<open>
  The node a path leads to when every directory on the way exists: the steps of the
  walk without its checks.
\<close>

definition place :: "world \<Rightarrow> string \<Rightarrow> string list" where
  "place w p = foldl step (start_dir w p) (split_sep p)"

text \<open>
  The three failure classes as the specification words them: the suffix of the marker
  file and its fixed message, chosen by the exception of the download attempt.
\<close>

definition marker_suffix :: "py_exc \<Rightarrow> string" where
  "marker_suffix e =
     (if e = HTTPError then ''.404error.txt''
      else if e = Timeout then ''.timedout.txt''
      else ''.failed.txt'')"

definition marker_message :: "py_exc \<Rightarrow> string" where
  "marker_message e =
     (if e = HTTPError then ''recieved 404 error when trying to download'' @ [CHR 0x0A]
      else if e = Timeout
        then ''timed out when trying to download, please manually download using the link below''
             @ [CHR 0x0A]
      else ''recieved an error when trying to download'' @ [CHR 0x0A])"

text \<open>
  The index field as the specification words it: the decimal digits of a non-negative
  index, filled with zeros on the left to at least three characters.
\<close>

definition zero_padded3 :: "int \<Rightarrow> string" where
  "zero_padded3 n = replicate (3 - length (str_nat (nat n))) CHR ''0'' @ str_nat (nat n)"

text \<open>The number a string of decimal digits stands for.\<close>

definition digit_value :: "char \<Rightarrow> nat" where
  "digit_value c = length (takeWhile (\<lambda>d. d \<noteq> c) decimal_digits)"

definition digits_value :: "string \<Rightarrow> nat" where
  "digits_value s = foldl (\<lambda>acc c. 10 * acc + digit_value c) 0 s"

text \<open>
  Worlds to run the program in: one with an empty working directory \<open>/home\<close>, one
  where the output directory \<open>out/000\<close> already holds directories that carry the names
  of marker files, and one where it holds an earlier download.
\<close>

definition home_world :: world where
  "home_world = \<lparr>cwd = [''home''], nodes = [[''home''] \<mapsto> Dir], events = []\<rparr>"

definition blocked_world :: world where
  "blocked_world =
     \<lparr>cwd = [''home''],
      nodes = [[''home''] \<mapsto> Dir, [''home'', ''out''] \<mapsto> Dir, [''home'', ''out'', ''000''] \<mapsto> Dir,
               [''home'', ''out'', ''000'', ''a.pdf.404error.txt''] \<mapsto> Dir,
               [''home'', ''out'', ''000'', ''a.pdf.timedout.txt''] \<mapsto> Dir],
      events = []\<rparr>"


text \<open>The row of the summary file for one result, and the header of the file.\<close>

definition summary_header :: string where
  "summary_header = ''search number, title, link'' @ [CHR 0x0A]"

definition summary_row :: "int \<times> search_result \<Rightarrow> string" where
  "summary_row ir =
     zero_padded3 (fst ir) @ '', '' @ title (snd ir) @ '', '' @ primary_link (snd ir) @ [CHR 0x0A]"

lemma digit_char_in: "d < 10 \<Longrightarrow> digit_char d \<in> set decimal_digits"
  unfolding digit_char_def by (rule nth_mem) (simp add: decimal_digits_def)

lemma str_nat_nonempty: "str_nat n \<noteq> []"
  by (subst str_nat.simps) simp

lemma str_nat_digits: "set (str_nat n) \<subseteq> set decimal_digits"
proof (induction n rule: str_nat.induct)
  case (1 n)
  show ?case
  proof (cases "n < 10")
    case True
    then show ?thesis using digit_char_in [of n] by (subst str_nat.simps) simp
  next
    case False
    have "n mod 10 < 10" by simp
    then have "digit_char (n mod 10) \<in> set decimal_digits" by (rule digit_char_in)
    with False "1.IH" show ?thesis by (subst str_nat.simps) simp
  qed
qed

lemma str_int_nonempty: "str_int i \<noteq> []"
  by (simp add: str_int_def str_nat_nonempty)

lemma str_int_chars: "set (str_int i) \<subseteq> insert CHR ''-'' (set decimal_digits)"
  using str_nat_digits [of "nat i"] str_nat_digits [of "nat (- i)"]
  unfolding str_int_def by (cases "i < 0") auto

lemma zfill_nonempty: "s \<noteq> [] \<Longrightarrow> zfill k s \<noteq> []"
  by (simp add: zfill_def)

lemma zfill_chars: "set (zfill k s) \<subseteq> insert CHR ''0'' (set s)"
proof (cases s)
  case Nil
  then show ?thesis by (auto simp: zfill_def)
next
  case (Cons c cs)
  then show ?thesis by (auto simp: zfill_def)
qed

lemma zero_is_digit: "CHR ''0'' \<in> set decimal_digits"
  by (simp add: decimal_digits_def)

lemma index_chars: "set (zfill 3 (str_int n)) \<subseteq> insert CHR ''-'' (set decimal_digits)"
  using zfill_chars [of 3 "str_int n"] str_int_chars [of n] zero_is_digit by blast

lemma slash_not_index_char: "CHR ''/'' \<notin> insert CHR ''-'' (set decimal_digits)"
  by (simp add: decimal_digits_def)

lemma dot_not_index_char: "CHR ''.'' \<notin> insert CHR ''-'' (set decimal_digits)"
  by (simp add: decimal_digits_def)

lemma index_plain: "plain_name (zfill 3 (str_int n))"
proof -
  let ?s = "zfill 3 (str_int n)"
  have ne: "?s \<noteq> []" by (simp add: zfill_nonempty str_int_nonempty)
  have c: "set ?s \<subseteq> insert CHR ''-'' (set decimal_digits)" by (rule index_chars)
  have s: "CHR ''/'' \<notin> set ?s" using c slash_not_index_char by blast
  have d: "CHR ''.'' \<notin> set ?s" using c dot_not_index_char by blast
  have "?s \<noteq> ''.''"
  proof
    assume "?s = ''.''"
    then have "CHR ''.'' \<in> set ?s" by simp
    with d show False by contradiction
  qed
  moreover have "?s \<noteq> ''..''"
  proof
    assume "?s = ''..''"
    then have "CHR ''.'' \<in> set ?s" by simp
    with d show False by contradiction
  qed
  ultimately show ?thesis using ne s by (simp add: plain_name_def)
qed

lemma split_sep_nonempty: "split_sep p \<noteq> []"
  by (induction p) auto

lemma split_sep_plain: "CHR ''/'' \<notin> set b \<Longrightarrow> split_sep b = [b]"
  by (induction b) auto

lemma split_sep_slash: "split_sep (a @ CHR ''/'' # b) = split_sep a @ split_sep b"
  by (induction a) (auto simp: split_sep_nonempty)

lemma step_plain: "plain_name b \<Longrightarrow> step cur b = cur @ [b]"
  by (simp add: plain_name_def step_def)

lemma start_dir_cwd: "cwd w' = cwd w \<Longrightarrow> start_dir w' p = start_dir w p"
  by (simp add: start_dir_def)

lemma start_dir_slash: "a \<noteq> [] \<Longrightarrow> start_dir w (a @ CHR ''/'' # b) = start_dir w a"
  by (simp add: start_dir_def)

lemma place_cwd: "cwd w' = cwd w \<Longrightarrow> place w' p = place w p"
  by (simp add: place_def start_dir_def)

lemma place_slash:
  assumes "a \<noteq> []" and "CHR ''/'' \<notin> set b"
  shows "place w (a @ CHR ''/'' # b) = step (place w a) b"
  unfolding place_def start_dir_slash [OF assms(1)]
  by (simp add: split_sep_slash split_sep_plain [OF assms(2)])

lemma basename_no_slash: "CHR ''/'' \<notin> set (basename p)"
proof
  assume "CHR ''/'' \<in> set (basename p)"
  then have "CHR ''/'' \<in> set (takeWhile (\<lambda>c. c \<noteq> CHR ''/'') (rev p))"
    by (simp add: basename_def)
  then show False by (auto dest: set_takeWhileD)
qed

lemma dirname_slash:
  assumes "a \<noteq> []" and "last a \<noteq> CHR ''/''" and "CHR ''/'' \<notin> set b"
  shows "dirname (a @ CHR ''/'' # b) = a"
proof -
  have "\<And>x. x \<in> set (rev b) \<Longrightarrow> x \<noteq> CHR ''/''"
    using assms(3) by auto
  then have "dropWhile (\<lambda>c. c \<noteq> CHR ''/'') (rev b @ CHR ''/'' # rev a)
      = dropWhile (\<lambda>c. c \<noteq> CHR ''/'') (CHR ''/'' # rev a)"
    by (rule dropWhile_append2)
  then have head: "rev (dropWhile (\<lambda>c. c \<noteq> CHR ''/'') (rev (a @ CHR ''/'' # b))) = a @ [CHR ''/'']"
    by simp
  obtain x xs where ra: "rev a = x # xs" using assms(1) by (cases "rev a") auto
  have "x = last a" using ra assms(1) by (metis hd_rev list.sel(1))
  then have x: "x \<noteq> CHR ''/''" using assms(2) by simp
  have "dropWhile (\<lambda>c. c = CHR ''/'') (rev (a @ [CHR ''/''])) = rev a"
    using x by (simp add: ra)
  then have strip: "rev (dropWhile (\<lambda>c. c = CHR ''/'') (rev (a @ [CHR ''/'']))) = a"
    by simp
  have "last a \<in> set a" using assms(1) by simp
  then have na: "\<not> list_all (\<lambda>c. c = CHR ''/'') (a @ [CHR ''/''])"
    using assms(2) by (auto simp: list_all_iff)
  have "dirname (a @ CHR ''/'' # b) =
      (if a @ [CHR ''/''] \<noteq> [] \<and> \<not> list_all (\<lambda>c. c = CHR ''/'') (a @ [CHR ''/''])
       then rev (dropWhile (\<lambda>c. c = CHR ''/'') (rev (a @ [CHR ''/''])))
       else a @ [CHR ''/''])"
    unfolding dirname_def Let_def head ..
  also have "\<dots> = a" using na strip by simp
  finally show ?thesis .
qed

lemma path_join_plain:
  assumes "CHR ''/'' \<notin> set b"
  shows "path_join a b = (if a = [] \<or> last a = CHR ''/'' then a @ b else a @ CHR ''/'' # b)"
  using assms by (cases b) (auto simp: path_join_def)

lemma place_join:
  assumes "plain_name b"
  shows "place w (path_join a b) = place w a @ [b]"
proof -
  have ns: "CHR ''/'' \<notin> set b" using assms by (simp add: plain_name_def)
  have nb: "b \<noteq> []" using assms by (simp add: plain_name_def)
  show ?thesis
  proof (cases "a = []")
    case True
    have "hd b \<noteq> CHR ''/''" using ns nb by (cases b) auto
    then show ?thesis
      using True nb step_plain [OF assms]
      by (simp add: path_join_def place_def start_dir_def split_sep_plain [OF ns] step_def)
  next
    case False
    show ?thesis
    proof (cases "last a = CHR ''/''")
      case True
      with False obtain x where a: "a = x @ [CHR ''/'']"
        by (metis append_butlast_last_id)
      have st: "start_dir w (x @ CHR ''/'' # b) = start_dir w (x @ [CHR ''/''])"
        by (cases x) (simp_all add: start_dir_def)
      have s1: "split_sep (x @ [CHR ''/'']) = split_sep x @ [[]]"
        using split_sep_slash [of x "[]"] by simp
      have "place w (x @ CHR ''/'' # b) = place w (x @ [CHR ''/'']) @ [b]"
        unfolding place_def st
        using step_plain [OF assms]
        by (simp add: split_sep_slash s1 split_sep_plain [OF ns] step_def)
      then show ?thesis using ns a by (simp add: path_join_plain)
    next
      case nl: False
      have "place w (a @ CHR ''/'' # b) = place w a @ [b]"
        using place_slash [OF False ns] step_plain [OF assms] by simp
      then show ?thesis using ns False nl by (simp add: path_join_plain)
    qed
  qed
qed

lemma path_join_last:
  assumes "b \<noteq> []" and "CHR ''/'' \<notin> set b"
  shows "path_join a b \<noteq> [] \<and> last (path_join a b) \<noteq> CHR ''/''"
proof -
  have "last b \<in> set b" using assms(1) by simp
  then have "last b \<noteq> CHR ''/''" using assms(2) by auto
  then show ?thesis using assms by (auto simp: path_join_plain)
qed

lemma save_dir_shape:
  "path_join base (zfill 3 (str_int n)) \<noteq> [] \<and> last (path_join base (zfill 3 (str_int n))) \<noteq> CHR ''/''"
  using index_plain [of n] by (intro path_join_last) (simp_all add: plain_name_def)

lemma fname_shape:
  assumes "a \<noteq> []" and "last a \<noteq> CHR ''/''"
  shows "path_join a (basename link) = a @ CHR ''/'' # basename link"
  using assms basename_no_slash [of link] by (simp add: path_join_plain)

lemma cwd_log_event [simp]: "cwd (log_event e w) = cwd w"
  by (simp add: log_event_def)

lemma nodes_log_event [simp]: "nodes (log_event e w) = nodes w"
  by (simp add: log_event_def)

lemma events_log_event [simp]: "events (log_event e w) = events w @ [e]"
  by (simp add: log_event_def)

lemma start_dir_log_event [simp]: "start_dir (log_event e w) p = start_dir w p"
  by (simp add: start_dir_def)

lemma start_dir_nodes_update [simp]: "start_dir (w\<lparr>nodes := t\<rparr>) p = start_dir w p"
  by (simp add: start_dir_def)

lemma start_dir_events_update [simp]: "start_dir (w\<lparr>events := es\<rparr>) p = start_dir w p"
  by (simp add: start_dir_def)

lemma place_log_event [simp]: "place (log_event e w) p = place w p"
  by (simp add: place_def)

lemma place_nodes_update [simp]: "place (w\<lparr>nodes := t\<rparr>) p = place w p"
  by (simp add: place_def)

lemma place_events_update [simp]: "place (w\<lparr>events := es\<rparr>) p = place w p"
  by (simp add: place_def)

lemma lookup_log_event [simp]: "lookup (log_event e w) p = lookup w p"
  by (simp add: lookup_def)

lemma lookup_events_update [simp]: "lookup (w\<lparr>events := es\<rparr>) p = lookup w p"
  by (simp add: lookup_def)

lemma isdir_log_event [simp]: "isdir (log_event e w) p = isdir w p"
  by (simp add: isdir_def split: sum.splits)

lemma isdir_events_update [simp]: "isdir (w\<lparr>events := es\<rparr>) p = isdir w p"
  by (simp add: isdir_def split: sum.splits)

lemma isfile_log_event [simp]: "isfile (log_event e w) p = isfile w p"
  by (simp add: isfile_def split: sum.splits)

lemma isfile_events_update [simp]: "isfile (w\<lparr>events := es\<rparr>) p = isfile w p"
  by (simp add: isfile_def split: sum.splits)

lemma open_target_log_event [simp]: "open_target (log_event e w) p = open_target w p"
  by (simp add: open_target_def split: sum.splits)

lemma open_target_events_update [simp]: "open_target (w\<lparr>events := es\<rparr>) p = open_target w p"
  by (simp add: open_target_def split: sum.splits)

lemma isdir_same:
  assumes "cwd w' = cwd w" and "nodes w' = nodes w"
  shows "isdir w' p = isdir w p"
  using assms by (simp add: isdir_def lookup_def start_dir_def split: sum.splits)

lemma is_file_Dir [simp]: "t q = Some Dir \<Longrightarrow> \<not> is_file t q"
  by (simp add: is_file_def)

lemma is_file_None [simp]: "t q = None \<Longrightarrow> \<not> is_file t q"
  by (simp add: is_file_def)

lemma is_dir_not_file: "is_dir t q \<Longrightarrow> \<not> is_file t q"
  by (auto simp: is_dir_def is_file_def)

lemma walk_place: "walk t cur cs = Inr q \<Longrightarrow> q = foldl step cur cs"
  by (induction cs arbitrary: cur) (auto split: if_splits)

lemma walk_append:
  "walk t cur (xs @ ys) = (case walk t cur xs of Inl e \<Rightarrow> Inl e | Inr q \<Rightarrow> walk t q ys)"
  by (induction xs arbitrary: cur) auto

lemma walk_mono:
  assumes "\<And>q. is_dir t q \<Longrightarrow> is_dir t' q"
  shows "walk t cur cs = Inr q \<Longrightarrow> walk t' cur cs = Inr q"
  using assms by (induction cs arbitrary: cur) (auto split: if_splits)

lemma mkdirs_walk_frame:
  "mkdirs_walk t cur cs = (r, t') \<Longrightarrow> t' q = t q \<or> (t q = None \<and> t' q = Some Dir)"
proof (induction cs arbitrary: t cur)
  case Nil
  then show ?case by simp
next
  case (Cons c cs)
  show ?case
  proof (cases "\<not> is_dir t cur \<or> (c \<noteq> [] \<and> c \<noteq> ''.'' \<and> c \<noteq> ''..'' \<and> is_file t (cur @ [c]))")
    case True
    then have "t' = t" using Cons.prems by (auto split: if_splits)
    then show ?thesis by simp
  next
    case ok: False
    show ?thesis
    proof (cases "c = [] \<or> c = ''.'' \<or> c = ''..''")
      case True
      then have "mkdirs_walk t (step cur c) cs = (r, t')" using Cons.prems ok by auto
      then show ?thesis by (rule Cons.IH)
    next
      case plain: False
      show ?thesis
      proof (cases "is_dir t (cur @ [c])")
        case True
        then have "mkdirs_walk t (cur @ [c]) cs = (r, t')" using Cons.prems ok plain by auto
        then show ?thesis by (rule Cons.IH)
      next
        case nd: False
        then have none: "t (cur @ [c]) = None"
          using ok plain by (cases "t (cur @ [c])") (auto simp: is_dir_def is_file_def split: node.splits)
        have "mkdirs_walk (t(cur @ [c] \<mapsto> Dir)) (cur @ [c]) cs = (r, t')"
          using Cons.prems ok plain nd by auto
        from Cons.IH [OF this]
        show ?thesis using none by (cases "q = cur @ [c]") auto
      qed
    qed
  qed
qed

lemma mkdirs_walk_keeps_dirs:
  assumes "mkdirs_walk t cur cs = (r, t')" and "is_dir t q"
  shows "is_dir t' q"
  using mkdirs_walk_frame [OF assms(1), of q] assms(2) by (auto simp: is_dir_def)

lemma mkdirs_walk_made:
  "mkdirs_walk t cur cs = (None, t') \<Longrightarrow>
     walk t' cur cs = Inr (foldl step cur cs) \<and> is_dir t' (foldl step cur cs)"
proof (induction cs arbitrary: t cur)
  case Nil
  then show ?case by (auto split: if_splits)
next
  case (Cons c cs)
  have dc: "is_dir t cur" using Cons.prems by (auto split: if_splits)
  have dc': "is_dir t' cur" by (rule mkdirs_walk_keeps_dirs [OF Cons.prems dc])
  show ?case
  proof (cases "c = [] \<or> c = ''.'' \<or> c = ''..''")
    case True
    then have "mkdirs_walk t (step cur c) cs = (None, t')" using Cons.prems dc by auto
    from Cons.IH [OF this] show ?thesis using dc' by simp
  next
    case plain: False
    then have st: "step cur c = cur @ [c]" by (simp add: step_def)
    have nf: "\<not> is_file t (cur @ [c])" using Cons.prems dc plain by (auto split: if_splits)
    let ?t1 = "if is_dir t (cur @ [c]) then t else t(cur @ [c] \<mapsto> Dir)"
    have "mkdirs_walk ?t1 (cur @ [c]) cs = (None, t')"
      using Cons.prems dc plain nf by (auto split: if_splits)
    from Cons.IH [OF this] show ?thesis using dc' st by simp
  qed
qed

lemma mkdirs_walk_existing:
  "walk t cur cs = Inr q \<Longrightarrow> is_dir t q \<Longrightarrow> mkdirs_walk t cur cs = (None, t)"
proof (induction cs arbitrary: cur)
  case Nil
  then show ?case by simp
next
  case (Cons c cs)
  have dc: "is_dir t cur" using Cons.prems(1) by (auto split: if_splits)
  have w: "walk t (step cur c) cs = Inr q" using Cons.prems(1) dc by simp
  have ih: "mkdirs_walk t (step cur c) cs = (None, t)" by (rule Cons.IH [OF w Cons.prems(2)])
  show ?case
  proof (cases "c = [] \<or> c = ''.'' \<or> c = ''..''")
    case True
    then show ?thesis using dc ih by simp
  next
    case plain: False
    then have st: "step cur c = cur @ [c]" by (simp add: step_def)
    have "is_dir t (cur @ [c])"
    proof (cases cs)
      case Nil
      then show ?thesis using w st Cons.prems(2) by simp
    next
      case (Cons c' cs')
      then show ?thesis using w st by (auto split: if_splits)
    qed
    then show ?thesis using dc ih st plain is_dir_not_file by simp
  qed
qed

lemma mkdirs_walk_append:
  "mkdirs_walk t cur xs = (None, t1) \<Longrightarrow>
     mkdirs_walk t cur (xs @ ys) = mkdirs_walk t1 (foldl step cur xs) ys"
proof (induction xs arbitrary: t cur)
  case Nil
  then show ?case by (auto split: if_splits)
next
  case (Cons c cs)
  have dc: "is_dir t cur" using Cons.prems by (auto split: if_splits)
  show ?case
  proof (cases "c = [] \<or> c = ''.'' \<or> c = ''..''")
    case True
    then have "mkdirs_walk t (step cur c) cs = (None, t1)" using Cons.prems dc by auto
    from Cons.IH [OF this] show ?thesis using dc True by simp
  next
    case plain: False
    then have st: "step cur c = cur @ [c]" by (simp add: step_def)
    have nf: "\<not> is_file t (cur @ [c])" using Cons.prems dc plain by (auto split: if_splits)
    let ?t1 = "if is_dir t (cur @ [c]) then t else t(cur @ [c] \<mapsto> Dir)"
    have "mkdirs_walk ?t1 (cur @ [c]) cs = (None, t1)"
      using Cons.prems dc plain nf by (auto split: if_splits)
    from Cons.IH [OF this] show ?thesis using dc plain nf st by (auto split: if_splits)
  qed
qed

lemma mkdirs_walk_one:
  assumes "is_dir t cur" and "plain_name c" and "t (cur @ [c]) \<noteq> Some Dir" and "\<not> is_file t (cur @ [c])"
  shows "mkdirs_walk t cur [c] = (None, t(cur @ [c] \<mapsto> Dir))"
  using assms by (simp add: plain_name_def is_dir_def)

lemma isdir_lookup:
  assumes "isdir w a"
  shows "a \<noteq> []" and "walk (nodes w) (start_dir w a) (split_sep a) = Inr (place w a)"
    and "is_dir (nodes w) (place w a)"
proof -
  from assms obtain q where l: "lookup w a = Inr q" and d: "is_dir (nodes w) q"
    by (auto simp: isdir_def split: sum.splits)
  from l show ne: "a \<noteq> []" by (auto simp: lookup_def split: if_splits)
  from l ne have wk: "walk (nodes w) (start_dir w a) (split_sep a) = Inr q"
    by (simp add: lookup_def)
  from walk_place [OF wk] have q: "q = place w a" by (simp add: place_def)
  show "walk (nodes w) (start_dir w a) (split_sep a) = Inr (place w a)" using wk q by simp
  show "is_dir (nodes w) (place w a)" using d q by simp
qed

lemma isdirI:
  assumes "a \<noteq> []" and "walk (nodes w) (start_dir w a) (split_sep a) = Inr q"
    and "is_dir (nodes w) q"
  shows "isdir w a"
  using assms by (simp add: isdir_def lookup_def)

lemma makedirs_Inr:
  assumes "makedirs name w = (Inr u, w1)"
  shows "name \<noteq> []" and "cwd w1 = cwd w" and "events w1 = events w @ [Makedirs name]"
    and "mkdirs_walk (nodes w) (start_dir w name) (split_sep name) = (None, nodes w1)"
  using assms
  by (auto simp: makedirs_def Let_def split: if_splits prod.splits option.splits)

lemma makedirs_dirs:
  assumes "makedirs name w = (Inr u, w1)"
  shows "isdir w1 name"
proof -
  note m = makedirs_Inr [OF assms]
  have sd: "start_dir w1 name = start_dir w name" by (rule start_dir_cwd [OF m(2)])
  from mkdirs_walk_made [OF m(4)]
  have a: "walk (nodes w1) (start_dir w1 name) (split_sep name) =
             Inr (foldl step (start_dir w name) (split_sep name))"
    and b: "is_dir (nodes w1) (foldl step (start_dir w name) (split_sep name))"
    by (simp_all add: sd)
  show ?thesis by (rule isdirI [OF m(1) a b])
qed

lemma makedirs_existing:
  assumes "isdir w name"
  shows "makedirs name w = (Inr (), w\<lparr>events := events w @ [Makedirs name]\<rparr>)"
proof -
  note d = isdir_lookup [OF assms]
  have "mkdirs_walk (nodes w) (start_dir w name) (split_sep name) = (None, nodes w)"
    by (rule mkdirs_walk_existing [OF d(2,3)])
  then show ?thesis using d(1) by (simp add: makedirs_def Let_def log_event_def)
qed

lemma makedirs_any:
  assumes "makedirs name w = (r, w1)"
  shows "cwd w1 = cwd w" and "events w1 = events w @ [Makedirs name]"
    and "nodes w1 q = nodes w q \<or> (nodes w q = None \<and> nodes w1 q = Some Dir)"
proof -
  obtain r' t' where m: "mkdirs_walk (nodes w) (start_dir w name) (split_sep name) = (r', t')"
    by (cases "mkdirs_walk (nodes w) (start_dir w name) (split_sep name)")
  show "cwd w1 = cwd w" and "events w1 = events w @ [Makedirs name]"
    using assms m by (auto simp: makedirs_def Let_def split: if_splits option.splits)
  have "nodes w1 = nodes w \<or> nodes w1 = t'"
    using assms m by (auto simp: makedirs_def Let_def split: if_splits option.splits)
  then show "nodes w1 q = nodes w q \<or> (nodes w q = None \<and> nodes w1 q = Some Dir)"
    using mkdirs_walk_frame [OF m, of q] by auto
qed

lemma strip_slashes_id:
  assumes "p \<noteq> []" and "last p \<noteq> CHR ''/''"
  shows "strip_slashes p = p"
  using assms by (cases p rule: rev_cases) (simp_all add: strip_slashes_def)

lemma strip_slashes_trailing:
  assumes "a \<noteq> []" and "last a \<noteq> CHR ''/''"
  shows "strip_slashes (a @ [CHR ''/'']) = a"
  using assms by (cases a rule: rev_cases) (simp_all add: strip_slashes_def)

lemma names_directory_slash:
  assumes "CHR ''/'' \<notin> set b"
  shows "names_directory (a @ CHR ''/'' # b) \<longleftrightarrow> \<not> plain_name b"
  using assms by (simp add: names_directory_def split_sep_slash split_sep_plain plain_name_def)

lemma walk_in_dir:
  assumes "isdir w a" and "CHR ''/'' \<notin> set b"
  shows "walk (nodes w) (start_dir w (a @ CHR ''/'' # b)) (split_sep (a @ CHR ''/'' # b)) =
     Inr (step (place w a) b)"
proof -
  note d = isdir_lookup [OF assms(1)]
  show ?thesis
    unfolding start_dir_slash [OF d(1)] split_sep_slash split_sep_plain [OF assms(2)] walk_append d(2)
    using d(3) by simp
qed

lemma open_target_in_dir:
  assumes "isdir w a" and "plain_name b"
  shows "open_target w (a @ CHR ''/'' # b) =
     (if nodes w (place w a @ [b]) = Some Dir then Inl IsADirectoryError
      else Inr (place w a @ [b]))"
proof -
  have ns: "CHR ''/'' \<notin> set b" and bn: "b \<noteq> []" using assms(2) by (simp_all add: plain_name_def)
  have "last b \<noteq> CHR ''/''" using ns last_in_set [OF bn] by metis
  then have "last (a @ CHR ''/'' # b) \<noteq> CHR ''/''" using bn by simp
  then have s: "strip_slashes (a @ CHR ''/'' # b) = a @ CHR ''/'' # b"
    by (intro strip_slashes_id) simp_all
  have nd: "\<not> names_directory (a @ CHR ''/'' # b)"
    using names_directory_slash [OF ns] assms(2) by simp
  show ?thesis
    unfolding open_target_def s walk_in_dir [OF assms(1) ns] step_plain [OF assms(2)]
    using nd by (simp add: is_dir_def)
qed

lemma open_target_not_plain:
  assumes "isdir w a" and "last a \<noteq> CHR ''/''" and "CHR ''/'' \<notin> set b" and "\<not> plain_name b"
  shows "open_target w (a @ CHR ''/'' # b) = Inl IsADirectoryError"
proof -
  note d = isdir_lookup [OF assms(1)]
  have nd: "names_directory (a @ CHR ''/'' # b)"
    using names_directory_slash [OF assms(3)] assms(4) by simp
  show ?thesis
  proof (cases "b = []")
    case True
    have s: "strip_slashes (a @ [CHR ''/'']) = a" by (rule strip_slashes_trailing [OF d(1) assms(2)])
    have sd: "start_dir w (a @ [CHR ''/'']) = start_dir w a"
      using start_dir_slash [OF d(1), of w "[]"] by simp
    show ?thesis using nd unfolding True open_target_def s sd d(2) by simp
  next
    case False
    have "last b \<noteq> CHR ''/''" using assms(3) last_in_set [OF False] by metis
    then have "last (a @ CHR ''/'' # b) \<noteq> CHR ''/''" using False by simp
    then have s: "strip_slashes (a @ CHR ''/'' # b) = a @ CHR ''/'' # b"
      by (intro strip_slashes_id) simp_all
    show ?thesis
      unfolding open_target_def s walk_in_dir [OF assms(1,3)]
      using nd by simp
  qed
qed

lemma open_write_in_dir:
  assumes "isdir w a" and "plain_name b"
  shows "open_write (a @ CHR ''/'' # b) data w =
     (if nodes w (place w a @ [b]) = Some Dir
        then (Inl IsADirectoryError, w\<lparr>events := events w @ [OpenWrite (a @ CHR ''/'' # b) data]\<rparr>)
      else (Inr (), w\<lparr>nodes := (nodes w)(place w a @ [b] \<mapsto> File data),
                      events := events w @ [OpenWrite (a @ CHR ''/'' # b) data]\<rparr>))"
  unfolding open_write_def Let_def open_target_log_event open_target_in_dir [OF assms]
  by (simp add: log_event_def)

lemma open_write_not_plain:
  assumes "isdir w a" and "last a \<noteq> CHR ''/''" and "CHR ''/'' \<notin> set b" and "\<not> plain_name b"
  shows "open_write (a @ CHR ''/'' # b) data w =
     (Inl IsADirectoryError, w\<lparr>events := events w @ [OpenWrite (a @ CHR ''/'' # b) data]\<rparr>)"
  unfolding open_write_def Let_def open_target_log_event open_target_not_plain [OF assms]
  by (simp add: log_event_def)

lemma open_append_in_dir:
  assumes "isdir w a" and "plain_name b"
  shows "open_append (a @ CHR ''/'' # b) data w =
     (if nodes w (place w a @ [b]) = Some Dir
        then (Inl IsADirectoryError, w\<lparr>events := events w @ [OpenAppend (a @ CHR ''/'' # b) data]\<rparr>)
      else (Inr (), w\<lparr>nodes := (nodes w)(place w a @ [b] \<mapsto>
                        File ((case nodes w (place w a @ [b]) of Some (File old) \<Rightarrow> old | _ \<Rightarrow> [])
                              @ data)),
                      events := events w @ [OpenAppend (a @ CHR ''/'' # b) data]\<rparr>))"
  unfolding open_append_def Let_def open_target_log_event open_target_in_dir [OF assms]
  by (simp add: log_event_def)

lemma isfile_in_dir:
  assumes "isdir w a" and "plain_name b"
  shows "isfile w (a @ CHR ''/'' # b) = is_file (nodes w) (place w a @ [b])"
proof -
  have ns: "CHR ''/'' \<notin> set b" using assms(2) by (simp add: plain_name_def)
  show ?thesis
    unfolding isfile_def lookup_def walk_in_dir [OF assms(1) ns] step_plain [OF assms(2)]
    by simp
qed

lemma suffixed_plain:
  assumes "CHR ''/'' \<notin> set b" and "CHR ''/'' \<notin> set sfx" and "2 < length sfx"
  shows "plain_name (b @ sfx)"
proof -
  have len: "2 < length (b @ sfx)" using assms(3) by simp
  have n0: "b @ sfx \<noteq> []" using assms(3) by auto
  have n1: "b @ sfx \<noteq> ''.''"
  proof
    assume "b @ sfx = ''.''"
    then have "length (b @ sfx) = length ''.''" by (rule arg_cong)
    with len show False by simp
  qed
  have n2: "b @ sfx \<noteq> ''..''"
  proof
    assume "b @ sfx = ''..''"
    then have "length (b @ sfx) = length ''..''" by (rule arg_cong)
    with len show False by simp
  qed
  show ?thesis using assms(1,2) n0 n1 n2 by (simp add: plain_name_def)
qed

lemma marker_write:
  assumes d: "isdir w a" and a: "last a \<noteq> CHR ''/''"
    and b: "CHR ''/'' \<notin> set b" and s: "CHR ''/'' \<notin> set sfx" "2 < length sfx"
  shows "and_then (makedirs (dirname (a @ CHR ''/'' # b)) w)
           (\<lambda>_ w. open_write ((a @ CHR ''/'' # b) @ sfx) data w) =
     (if nodes w (place w a @ [b @ sfx]) = Some Dir
        then (Inl IsADirectoryError,
              w\<lparr>events := events w @ [Makedirs a, OpenWrite (a @ CHR ''/'' # b @ sfx) data]\<rparr>)
      else (Inr (), w\<lparr>nodes := (nodes w)(place w a @ [b @ sfx] \<mapsto> File data),
                      events := events w @ [Makedirs a, OpenWrite (a @ CHR ''/'' # b @ sfx) data]\<rparr>))"
proof -
  have ane: "a \<noteq> []" by (rule isdir_lookup(1) [OF d])
  have dn: "dirname (a @ CHR ''/'' # b) = a" by (rule dirname_slash [OF ane a b])
  have mk: "makedirs a w = (Inr (), w\<lparr>events := events w @ [Makedirs a]\<rparr>)"
    by (rule makedirs_existing [OF d])
  let ?w1 = "w\<lparr>events := events w @ [Makedirs a]\<rparr>"
  have d1: "isdir ?w1 a" using d by simp
  have pl: "plain_name (b @ sfx)" by (rule suffixed_plain [OF b s])
  show ?thesis
    unfolding dn and_then_def mk
    using open_write_in_dir [OF d1 pl, of data]
    by simp
qed

lemma marker_suffix_shape: "CHR ''/'' \<notin> set (marker_suffix e) \<and> 2 < length (marker_suffix e)"
  by (simp add: marker_suffix_def)

lemma handler_marker:
  "(if e = HTTPError then write_fail_msg f l w
    else if e = Timeout then write_timeout_msg f l w
    else write_generic_fail_msg f l w) =
   and_then (makedirs (dirname f) w)
     (\<lambda>_ w. open_write (f @ marker_suffix e) (marker_message e @ l) w)"
  by (simp add: write_fail_msg_def write_timeout_msg_def write_generic_fail_msg_def
      marker_suffix_def marker_message_def)

lemma and_then_Inr [simp]: "and_then (Inr x, w) f = f x w"
  by (simp add: and_then_def)

lemma and_then_Inl [simp]: "and_then (Inl e, w) f = (Inl e, w)"
  by (simp add: and_then_def)

lemma save_pdf_exec:
  assumes mk: "makedirs (path_join base (zfill 3 (str_int n))) w = (Inr (), w1)"
  shows "save_pdf net n link base tmo w =
     (case download net link (path_join base (zfill 3 (str_int n)) @ CHR ''/'' # basename link) w1 of
        (Inr u, w') \<Rightarrow> (Inr u, w')
      | (Inl e, w') \<Rightarrow>
          and_then
            (makedirs (dirname (path_join base (zfill 3 (str_int n)) @ CHR ''/'' # basename link)) w')
            (\<lambda>_ w. open_write
               ((path_join base (zfill 3 (str_int n)) @ CHR ''/'' # basename link) @ marker_suffix e)
               (marker_message e @ link) w))"
proof -
  have f: "path_join (path_join base (zfill 3 (str_int n))) (basename link)
      = path_join base (zfill 3 (str_int n)) @ CHR ''/'' # basename link"
    using save_dir_shape [of base n] by (intro fname_shape) simp_all
  show ?thesis
    unfolding save_pdf_def Let_def mk and_then_Inr f handler_marker ..
qed

lemma download_exec:
  assumes d: "isdir w1 a" and a: "last a \<noteq> CHR ''/''" and b: "CHR ''/'' \<notin> set b"
  shows "download net link (a @ CHR ''/'' # b) w1 =
     (let req = \<lparr>url = link, req_headers = headers, allow_redirects = True, req_timeout = Some 60\<rparr>
      in case net req of
           Inl e \<Rightarrow> (Inl e, w1\<lparr>events := events w1 @ [Get req]\<rparr>)
         | Inr page \<Rightarrow>
             if 400 \<le> status_code page \<and> status_code page < 600
               then (Inl HTTPError, w1\<lparr>events := events w1 @ [Get req]\<rparr>)
             else if plain_name b \<and> nodes w1 (place w1 a @ [b]) \<noteq> Some Dir
               then (Inr (), w1\<lparr>nodes := (nodes w1)(place w1 a @ [b] \<mapsto> File (content page)),
                        events := events w1 @ [Get req, OpenWrite (a @ CHR ''/'' # b) (content page)]\<rparr>)
             else (Inl IsADirectoryError,
                   w1\<lparr>events := events w1 @ [Get req, OpenWrite (a @ CHR ''/'' # b) (content page)]\<rparr>))"
proof -
  let ?req = "\<lparr>url = link, req_headers = headers, allow_redirects = True, req_timeout = Some 60\<rparr>"
  let ?w2 = "w1\<lparr>events := events w1 @ [Get ?req]\<rparr>"
  have d2: "isdir ?w2 a" using d by simp
  have ow: "\<And>data. open_write (a @ CHR ''/'' # b) data ?w2 =
     (if plain_name b \<and> nodes w1 (place w1 a @ [b]) \<noteq> Some Dir
        then (Inr (), w1\<lparr>nodes := (nodes w1)(place w1 a @ [b] \<mapsto> File data),
                        events := events w1 @ [Get ?req, OpenWrite (a @ CHR ''/'' # b) data]\<rparr>)
      else (Inl IsADirectoryError,
            w1\<lparr>events := events w1 @ [Get ?req, OpenWrite (a @ CHR ''/'' # b) data]\<rparr>))"
  proof -
    fix data
    show "open_write (a @ CHR ''/'' # b) data ?w2 =
     (if plain_name b \<and> nodes w1 (place w1 a @ [b]) \<noteq> Some Dir
        then (Inr (), w1\<lparr>nodes := (nodes w1)(place w1 a @ [b] \<mapsto> File data),
                        events := events w1 @ [Get ?req, OpenWrite (a @ CHR ''/'' # b) data]\<rparr>)
      else (Inl IsADirectoryError,
            w1\<lparr>events := events w1 @ [Get ?req, OpenWrite (a @ CHR ''/'' # b) data]\<rparr>))"
    proof (cases "plain_name b")
      case True
      show ?thesis using open_write_in_dir [OF d2 True, of data] True by simp
    next
      case False
      show ?thesis using open_write_not_plain [OF d2 a b False, of data] False by simp
    qed
  qed
  show ?thesis
    unfolding download_def requests_get_def and_then_def raise_for_status_def Let_def log_event_def
    by (simp add: ow split: sum.splits)
qed

lemma download_failure:
  assumes d: "isdir w1 a" and a: "last a \<noteq> CHR ''/''" and b: "CHR ''/'' \<notin> set b"
    and f: "download net link (a @ CHR ''/'' # b) w1 = (Inl e, w2)"
  shows "nodes w2 = nodes w1" and "cwd w2 = cwd w1"
    and "\<exists>es. events w2 = events w1
           @ Get \<lparr>url = link, req_headers = headers, allow_redirects = True, req_timeout = Some 60\<rparr> # es"
  using f unfolding download_exec [OF d a b] Let_def
  by (auto split: sum.splits if_splits)

lemma download_error_class:
  assumes d: "isdir w1 a" and a: "last a \<noteq> CHR ''/''" and b: "CHR ''/'' \<notin> set b"
    and f: "download net link (a @ CHR ''/'' # b) w1 = (Inl e, w2)"
  shows "(e = HTTPError \<longleftrightarrow>
           net \<lparr>url = link, req_headers = headers, allow_redirects = True, req_timeout = Some 60\<rparr> = Inl HTTPError
           \<or> (\<exists>page. net \<lparr>url = link, req_headers = headers, allow_redirects = True, req_timeout = Some 60\<rparr> = Inr page
                 \<and> 400 \<le> status_code page \<and> status_code page < 600))"
    and "(e = Timeout \<longleftrightarrow>
           net \<lparr>url = link, req_headers = headers, allow_redirects = True, req_timeout = Some 60\<rparr> = Inl Timeout)"
  using f unfolding download_exec [OF d a b] Let_def
  by (auto split: sum.splits if_splits)

lemma place_save_dir:
  "place w (path_join base (zfill 3 (str_int n))) = place w base @ [zfill 3 (str_int n)]"
  by (rule place_join [OF index_plain])

lemma save_pdf_failure:
  assumes mk: "makedirs (path_join base (zfill 3 (str_int n))) w = (Inr (), w1)"
    and f: "download net link (path_join base (zfill 3 (str_int n)) @ CHR ''/'' # basename link) w1 = (Inl e, w2)"
  shows "save_pdf net n link base tmo w =
     (if nodes w1 (place w base @ [zfill 3 (str_int n), basename link @ marker_suffix e]) = Some Dir
        then (Inl IsADirectoryError,
              w2\<lparr>events := events w2 @
                 [Makedirs (path_join base (zfill 3 (str_int n))),
                  OpenWrite (path_join base (zfill 3 (str_int n)) @ CHR ''/'' # basename link @ marker_suffix e)
                    (marker_message e @ link)]\<rparr>)
      else (Inr (),
            w2\<lparr>nodes := (nodes w1)(place w base @ [zfill 3 (str_int n), basename link @ marker_suffix e]
                      \<mapsto> File (marker_message e @ link)),
               events := events w2 @
                 [Makedirs (path_join base (zfill 3 (str_int n))),
                  OpenWrite (path_join base (zfill 3 (str_int n)) @ CHR ''/'' # basename link @ marker_suffix e)
                    (marker_message e @ link)]\<rparr>))"
proof -
  let ?sd = "path_join base (zfill 3 (str_int n))"
  have c1: "cwd w1 = cwd w" by (rule makedirs_Inr(2) [OF mk])
  have d1: "isdir w1 ?sd" by (rule makedirs_dirs [OF mk])
  have sh: "?sd \<noteq> []" "last ?sd \<noteq> CHR ''/''" using save_dir_shape [of base n] by simp_all
  have bn: "CHR ''/'' \<notin> set (basename link)" by (rule basename_no_slash)
  have n2: "nodes w2 = nodes w1" and c2: "cwd w2 = cwd w1"
    using download_failure [OF d1 sh(2) bn f] by simp_all
  have r2: "place w2 ?sd = place w base @ [zfill 3 (str_int n)]"
    using place_cwd [of w2 w ?sd] c1 c2 place_save_dir [of w base n] by simp
  have d2: "isdir w2 ?sd" using d1 isdir_same [OF c2 n2, of ?sd] by simp
  have ms: "CHR ''/'' \<notin> set (marker_suffix e)" "2 < length (marker_suffix e)"
    using marker_suffix_shape [of e] by simp_all
  show ?thesis
    unfolding save_pdf_exec [OF mk] f
    using marker_write [OF d2 sh(2) bn ms, of "marker_message e @ link"]
    by (simp add: r2 n2)
qed

lemma save_pdf_success_lemma:
  assumes mk: "makedirs (path_join base (zfill 3 (str_int n))) w = (Inr (), w1)"
    and f: "download net link (path_join base (zfill 3 (str_int n)) @ CHR ''/'' # basename link) w1 = (Inr u, w2)"
  shows "save_pdf net n link base tmo w = (Inr (), w2)"
  unfolding save_pdf_exec [OF mk] f by simp

lemma open_write_any:
  assumes "open_write p data w = (r, w1)"
  shows "cwd w1 = cwd w" and "events w1 = events w @ [OpenWrite p data]"
  using assms
  by (auto simp: open_write_def Let_def split: sum.splits)

lemma open_append_any:
  assumes "open_append p data w = (r, w1)"
  shows "cwd w1 = cwd w" and "events w1 = events w @ [OpenAppend p data]"
  using assms
  by (auto simp: open_append_def Let_def split: sum.splits)

lemma save_google_search_events:
  "\<exists>es. events (snd (save_google_search u t b w)) = events w @ es
     \<and> (\<forall>m. Warn m \<notin> set es) \<and> (\<forall>r. Get r \<notin> set es)"
proof -
  obtain r1 w1 where m: "makedirs b w = (r1, w1)" by (cases "makedirs b w")
  have e1: "events w1 = events w @ [Makedirs b]" by (rule makedirs_any(2) [OF m])
  show ?thesis
  proof (cases r1)
    case (Inl e)
    then have "events (snd (save_google_search u t b w)) = events w @ [Makedirs b]"
      using m e1 by (simp add: save_google_search_def)
    then show ?thesis by simp
  next
    case (Inr u1)
    obtain r2 w2 where o1: "open_write (path_join b ''google-search-term.txt'') u w1 = (r2, w2)"
      by (cases "open_write (path_join b ''google-search-term.txt'') u w1")
    have e2: "events w2 = events w1 @ [OpenWrite (path_join b ''google-search-term.txt'') u]"
      by (rule open_write_any(2) [OF o1])
    show ?thesis
    proof (cases r2)
      case (Inl e)
      then have "events (snd (save_google_search u t b w))
          = events w @ [Makedirs b, OpenWrite (path_join b ''google-search-term.txt'') u]"
        using m Inr o1 e1 e2 by (simp add: save_google_search_def)
      then show ?thesis by simp
    next
      case r2: (Inr u2)
      obtain r3 w3 where o2: "open_write (path_join b ''google-search-result.html'') t w2 = (r3, w3)"
        by (cases "open_write (path_join b ''google-search-result.html'') t w2")
      have e3: "events w3 = events w2 @ [OpenWrite (path_join b ''google-search-result.html'') t]"
        by (rule open_write_any(2) [OF o2])
      have "events (snd (save_google_search u t b w))
          = events w @ [Makedirs b, OpenWrite (path_join b ''google-search-term.txt'') u,
                        OpenWrite (path_join b ''google-search-result.html'') t]"
        using m Inr o1 r2 o2 e1 e2 e3 by (simp add: save_google_search_def)
      then show ?thesis by simp
    qed
  qed
qed

lemma get_webpage_events:
  "\<exists>rest. events (snd (get_webpage net u results base w)) =
     events w
     @ (if 100 < results
          then [Warn ''More than 100 search results not implemented, setting to 100'']
        else [])
     @ Get \<lparr>url = u @ ''&num='' @ str_int (if 100 < results then 100 else results),
            req_headers = headers, allow_redirects = True, req_timeout = None\<rparr> # rest
     \<and> (\<forall>m. Warn m \<notin> set rest) \<and> (\<forall>r. Get r \<notin> set rest)"
proof -
  let ?w1 = "if 100 < results
     then warnings_warn ''More than 100 search results not implemented, setting to 100'' w else w"
  let ?url = "u @ ''&num='' @ str_int (if 100 < results then 100 else results)"
  let ?req = "\<lparr>url = ?url, req_headers = headers, allow_redirects = True, req_timeout = None\<rparr>"
  let ?w2 = "log_event (Get ?req) ?w1"
  have ev2: "events ?w2 = events w
     @ (if 100 < results
          then [Warn ''More than 100 search results not implemented, setting to 100'']
        else [])
     @ [Get ?req]"
    by (simp add: warnings_warn_def)
  have unf: "get_webpage net u results base w =
      and_then (net ?req, ?w2)
        (\<lambda>webpage w. and_then (save_google_search ?url (content webpage) base w)
           (\<lambda>_ w. (Inr (content webpage), w)))"
    by (simp add: get_webpage_def Let_def requests_get_def)
  show ?thesis
  proof (cases "net ?req")
    case (Inl e)
    then have "events (snd (get_webpage net u results base w)) = events ?w2"
      unfolding unf by simp
    then have "events (snd (get_webpage net u results base w)) =
       events w
       @ (if 100 < results
            then [Warn ''More than 100 search results not implemented, setting to 100'']
          else [])
       @ Get ?req # []
       \<and> (\<forall>m. Warn m \<notin> set ([]::event list)) \<and> (\<forall>r. Get r \<notin> set ([]::event list))"
      using ev2 by simp
    then show ?thesis by blast
  next
    case (Inr page)
    obtain es where es: "events (snd (save_google_search ?url (content page) base ?w2)) = events ?w2 @ es"
      and nw: "\<forall>m. Warn m \<notin> set es" and ng: "\<forall>r. Get r \<notin> set es"
      using save_google_search_events by blast
    have "events (snd (get_webpage net u results base w))
        = events (snd (save_google_search ?url (content page) base ?w2))"
      unfolding unf Inr
      by (cases "save_google_search ?url (content page) base ?w2") (auto simp: and_then_def split: sum.splits)
    then have "events (snd (get_webpage net u results base w)) =
       events w
       @ (if 100 < results
            then [Warn ''More than 100 search results not implemented, setting to 100'']
          else [])
       @ Get ?req # es"
      using es ev2 by simp
    then show ?thesis using nw ng by blast
  qed
qed

lemma download_raises:
  assumes "net \<lparr>url = link, req_headers = headers, allow_redirects = True, req_timeout = Some 60\<rparr> = Inl e"
  shows "download net link f w =
     (Inl e, w\<lparr>events := events w
        @ [Get \<lparr>url = link, req_headers = headers, allow_redirects = True, req_timeout = Some 60\<rparr>]\<rparr>)"
  using assms by (simp add: download_def requests_get_def log_event_def)

lemma download_error_status:
  assumes "net \<lparr>url = link, req_headers = headers, allow_redirects = True, req_timeout = Some 60\<rparr> = Inr page"
    and "400 \<le> status_code page" and "status_code page < 600"
  shows "download net link f w =
     (Inl HTTPError, w\<lparr>events := events w
        @ [Get \<lparr>url = link, req_headers = headers, allow_redirects = True, req_timeout = Some 60\<rparr>]\<rparr>)"
  using assms by (simp add: download_def requests_get_def raise_for_status_def log_event_def)

lemma index_0: "zfill 3 (str_int 0) = ''000''"
  by (simp add: zfill_def str_int_def str_nat.simps digit_char_def decimal_digits_def eval_nat_numeral)

lemma save_dir_out_0: "path_join ''out'' (zfill 3 (str_int 0)) = ''out/000''"
  by (simp add: index_0 path_join_def)

lemma basename_a_pdf: "basename ''http://example.org/a.pdf'' = ''a.pdf''"
  by (simp add: basename_def)


lemma isdir_home_out_000:
  "isdir (home_world\<lparr>nodes := [[''home''] \<mapsto> Dir, [''home'', ''out''] \<mapsto> Dir,
                                    [''home'', ''out'', ''000''] \<mapsto> Dir],
                         events := es\<rparr>) ''out/000''"
  by (simp add: isdir_def lookup_def start_dir_def home_world_def is_dir_def step_def)

lemma place_home_out: "place home_world ''out'' = [''home'', ''out'']"
  by (simp add: place_def start_dir_def home_world_def step_def)

lemma place_blocked_out: "place blocked_world ''out'' = [''home'', ''out'']"
  by (simp add: place_def start_dir_def blocked_world_def step_def)


lemma makedirs_home:
  "makedirs ''out/000'' home_world =
     (Inr (), home_world\<lparr>nodes := [[''home''] \<mapsto> Dir, [''home'', ''out''] \<mapsto> Dir,
                                    [''home'', ''out'', ''000''] \<mapsto> Dir],
                         events := [Makedirs ''out/000'']\<rparr>)"
  by (simp add: makedirs_def Let_def start_dir_def home_world_def log_event_def is_file_def
      is_dir_def step_def)

lemma isdir_blocked: "isdir blocked_world ''out/000''"
  by (simp add: isdir_def lookup_def start_dir_def blocked_world_def is_dir_def step_def)


lemma makedirs_blocked:
  "makedirs ''out/000'' blocked_world = (Inr (), blocked_world\<lparr>events := [Makedirs ''out/000'']\<rparr>)"
  using makedirs_existing [OF isdir_blocked] by (simp add: blocked_world_def)


lemma blocked_world_no_file: "nodes blocked_world q \<noteq> Some (File d)"
  by (simp add: blocked_world_def)

section \<open>The query of the results page\<close>

text \<open>
  Claim C7. Every call of \<open>get_webpage\<close> sends exactly one request, whose URL is the
  given URL followed by \<open>&num=\<close> and the result count in decimal. A count above 100 is
  replaced by 100 and one warning is issued, before the request; a count of at most 100
  is sent as it is and no warning is issued at all. This holds whatever the network
  answers and whatever happens to the files written afterwards: the calls that follow
  the request contain neither a warning nor another request.
\<close>

theorem get_webpage_result_count:
  "\<exists>rest. events (snd (get_webpage net u results base w)) =
     events w
     @ (if 100 < results
          then [Warn ''More than 100 search results not implemented, setting to 100'']
        else [])
     @ Get \<lparr>url = u @ ''&num='' @ str_int (min results 100),
            req_headers = headers, allow_redirects = True, req_timeout = None\<rparr> # rest
     \<and> (\<forall>m. Warn m \<notin> set rest) \<and> (\<forall>r. Get r \<notin> set rest)"
proof -
  have "(if 100 < results then 100 else results) = min results 100" by simp
  then show ?thesis using get_webpage_events [of net u results base w] by simp
qed

theorem get_webpage_result_count_witness:
  "(\<exists>rest. events (snd (get_webpage (\<lambda>r. Inl Timeout) ''https://www.google.com/search?q=a'' 150 ''out''
        home_world)) =
       Warn ''More than 100 search results not implemented, setting to 100''
       # Get \<lparr>url = ''https://www.google.com/search?q=a&num=100'',
              req_headers = headers, allow_redirects = True, req_timeout = None\<rparr> # rest
       \<and> (\<forall>m. Warn m \<notin> set rest) \<and> (\<forall>r. Get r \<notin> set rest))
   \<and> (\<exists>rest. events (snd (get_webpage (\<lambda>r. Inl Timeout) ''https://www.google.com/search?q=a'' 50 ''out''
        home_world)) =
       Get \<lparr>url = ''https://www.google.com/search?q=a&num=50'',
            req_headers = headers, allow_redirects = True, req_timeout = None\<rparr> # rest
       \<and> (\<forall>m. Warn m \<notin> set rest) \<and> (\<forall>r. Get r \<notin> set rest))"
proof -
  have s100: "str_int (min 150 100) = ''100''"
    by (simp add: str_int_def str_nat.simps digit_char_def decimal_digits_def)
  have s50: "str_int (min 50 100) = ''50''"
    by (simp add: str_int_def str_nat.simps digit_char_def decimal_digits_def)
  have e: "events home_world = []" by (simp add: home_world_def)
  show ?thesis
    using get_webpage_result_count [of "\<lambda>r. Inl Timeout" "''https://www.google.com/search?q=a''" 150 "''out''"
        home_world]
      get_webpage_result_count [of "\<lambda>r. Inl Timeout" "''https://www.google.com/search?q=a''" 50 "''out''"
        home_world]
    unfolding s100 s50 e by simp
qed

section \<open>Downloads that fail\<close>

lemma place_marker:
  "place w (path_join (path_join base (zfill 3 (str_int n))) (basename link) @ marker_suffix e) =
     place w base @ [zfill 3 (str_int n), basename link @ marker_suffix e]"
proof -
  let ?sd = "path_join base (zfill 3 (str_int n))"
  have sh: "?sd \<noteq> []" "last ?sd \<noteq> CHR ''/''" using save_dir_shape [of base n] by simp_all
  have bn: "CHR ''/'' \<notin> set (basename link)" by (rule basename_no_slash)
  have pl: "plain_name (basename link @ marker_suffix e)"
    using suffixed_plain [OF bn] marker_suffix_shape [of e] by simp
  have ns: "CHR ''/'' \<notin> set (basename link @ marker_suffix e)"
    using pl by (simp add: plain_name_def)
  have "path_join ?sd (basename link) @ marker_suffix e = ?sd @ CHR ''/'' # (basename link @ marker_suffix e)"
    using fname_shape [OF sh, of link] by simp
  then show ?thesis
    using place_slash [OF sh(1) ns, of w] step_plain [OF pl] place_save_dir [of w base n]
    by simp
qed

lemma fname_eq:
  "path_join (path_join base (zfill 3 (str_int n))) (basename link) =
     path_join base (zfill 3 (str_int n)) @ CHR ''/'' # basename link"
  using save_dir_shape [of base n] by (intro fname_shape) simp_all

lemma download_error_class':
  assumes mk: "makedirs (path_join base (zfill 3 (str_int n))) w = (Inr (), w1)"
    and f: "download net link (path_join (path_join base (zfill 3 (str_int n))) (basename link)) w1 = (Inl e, w2)"
  shows "(e = HTTPError \<longleftrightarrow>
           net \<lparr>url = link, req_headers = headers, allow_redirects = True, req_timeout = Some 60\<rparr> = Inl HTTPError
           \<or> (\<exists>page. net \<lparr>url = link, req_headers = headers, allow_redirects = True, req_timeout = Some 60\<rparr> = Inr page
                 \<and> 400 \<le> status_code page \<and> status_code page < 600))"
    and "(e = Timeout \<longleftrightarrow>
           net \<lparr>url = link, req_headers = headers, allow_redirects = True, req_timeout = Some 60\<rparr> = Inl Timeout)"
proof -
  let ?sd = "path_join base (zfill 3 (str_int n))"
  have d1: "isdir w1 ?sd" by (rule makedirs_dirs [OF mk])
  have sh: "last ?sd \<noteq> CHR ''/''" using save_dir_shape [of base n] by simp
  have bn: "CHR ''/'' \<notin> set (basename link)" by (rule basename_no_slash)
  have f': "download net link (?sd @ CHR ''/'' # basename link) w1 = (Inl e, w2)"
    using f by (simp only: fname_eq)
  show "(e = HTTPError \<longleftrightarrow>
           net \<lparr>url = link, req_headers = headers, allow_redirects = True, req_timeout = Some 60\<rparr> = Inl HTTPError
           \<or> (\<exists>page. net \<lparr>url = link, req_headers = headers, allow_redirects = True, req_timeout = Some 60\<rparr> = Inr page
                 \<and> 400 \<le> status_code page \<and> status_code page < 600))"
    by (rule download_error_class(1) [OF d1 sh bn f'])
  show "(e = Timeout \<longleftrightarrow>
           net \<lparr>url = link, req_headers = headers, allow_redirects = True, req_timeout = Some 60\<rparr> = Inl Timeout)"
    by (rule download_error_class(2) [OF d1 sh bn f'])
qed

text \<open>
  Claim C1, amended. When the result's directory could be created and the download
  attempt raised the exception \<open>e\<close>, and the path of the marker file is not an existing
  directory, then \<open>save_pdf\<close> returns normally and the only change to the tree is one
  marker file inside the result's directory, written by one \<open>open\<close> after the events
  of the attempt: its name is the last segment of the link
  followed by \<open>.404error.txt\<close> for an \<open>HTTPError\<close>, by \<open>.timedout.txt\<close> for a \<open>Timeout\<close>
  and by \<open>.failed.txt\<close> for every other exception, and its content is the fixed message
  of that class followed by the link. The exception is an \<open>HTTPError\<close> exactly when the
  server answered with a status from 400 to 599 (or the request itself raised it), and
  a \<open>Timeout\<close> exactly when the request raised one.
\<close>

theorem save_pdf_failure_marker:
  assumes mk: "makedirs (path_join base (zfill 3 (str_int n))) w = (Inr (), w1)"
    and fail: "download net link (path_join (path_join base (zfill 3 (str_int n))) (basename link)) w1
                 = (Inl e, w2)"
    and free: "nodes w1 (place w base @ [zfill 3 (str_int n), basename link @ marker_suffix e]) \<noteq> Some Dir"
  shows "save_pdf net n link base tmo w =
      (Inr (),
       w2\<lparr>nodes := (nodes w1)(place w base @ [zfill 3 (str_int n), basename link @ marker_suffix e]
                 \<mapsto> File (marker_message e @ link)),
          events := events w2 @
            [Makedirs (path_join base (zfill 3 (str_int n))),
             OpenWrite (path_join (path_join base (zfill 3 (str_int n))) (basename link) @ marker_suffix e)
               (marker_message e @ link)]\<rparr>)
    \<and> nodes w2 = nodes w1
    \<and> place w (path_join (path_join base (zfill 3 (str_int n))) (basename link) @ marker_suffix e) =
        place w base @ [zfill 3 (str_int n), basename link @ marker_suffix e]
    \<and> (e = HTTPError \<longleftrightarrow>
         net \<lparr>url = link, req_headers = headers, allow_redirects = True, req_timeout = Some 60\<rparr> = Inl HTTPError
         \<or> (\<exists>page. net \<lparr>url = link, req_headers = headers, allow_redirects = True, req_timeout = Some 60\<rparr> = Inr page
               \<and> 400 \<le> status_code page \<and> status_code page < 600))
    \<and> (e = Timeout \<longleftrightarrow>
         net \<lparr>url = link, req_headers = headers, allow_redirects = True, req_timeout = Some 60\<rparr> = Inl Timeout)"
proof -
  let ?sd = "path_join base (zfill 3 (str_int n))"
  have f': "download net link (?sd @ CHR ''/'' # basename link) w1 = (Inl e, w2)"
    using fail by (simp only: fname_eq)
  have d1: "isdir w1 ?sd" by (rule makedirs_dirs [OF mk])
  have sh: "last ?sd \<noteq> CHR ''/''" using save_dir_shape [of base n] by simp
  have n2: "nodes w2 = nodes w1"
    by (rule download_failure(1) [OF d1 sh basename_no_slash f'])
  have run: "save_pdf net n link base tmo w =
      (Inr (),
       w2\<lparr>nodes := (nodes w1)(place w base @ [zfill 3 (str_int n), basename link @ marker_suffix e]
                 \<mapsto> File (marker_message e @ link)),
          events := events w2 @
            [Makedirs (path_join base (zfill 3 (str_int n))),
             OpenWrite (path_join (path_join base (zfill 3 (str_int n))) (basename link) @ marker_suffix e)
               (marker_message e @ link)]\<rparr>)"
    unfolding save_pdf_failure [OF mk f'] fname_eq using free by simp
  show ?thesis
    using run n2 place_marker [of w base n link e] download_error_class' [OF mk fail]
    by blast
qed

theorem save_pdf_failure_marker_witness:
  "fst (save_pdf (\<lambda>r. Inr \<lparr>status_code = 404, content = ''Not Found''\<rparr>) 0
          ''http://example.org/a.pdf'' ''out'' 60 home_world) = Inr ()
   \<and> nodes (snd (save_pdf (\<lambda>r. Inr \<lparr>status_code = 404, content = ''Not Found''\<rparr>) 0
          ''http://example.org/a.pdf'' ''out'' 60 home_world))
        [''home'', ''out'', ''000'', ''a.pdf.404error.txt'']
      = Some (File (''recieved 404 error when trying to download'' @ [CHR 0x0A]
                    @ ''http://example.org/a.pdf''))
   \<and> fst (save_pdf (\<lambda>r. Inl Timeout) 0 ''http://example.org/a.pdf'' ''out'' 60 home_world) = Inr ()
   \<and> nodes (snd (save_pdf (\<lambda>r. Inl Timeout) 0 ''http://example.org/a.pdf'' ''out'' 60 home_world))
        [''home'', ''out'', ''000'', ''a.pdf.timedout.txt'']
      = Some (File (''timed out when trying to download, please manually download using the link below''
                    @ [CHR 0x0A] @ ''http://example.org/a.pdf''))
   \<and> fst (save_pdf (\<lambda>r. Inl RequestException) 0 ''http://example.org/a.pdf'' ''out'' 60 home_world) = Inr ()
   \<and> nodes (snd (save_pdf (\<lambda>r. Inl RequestException) 0 ''http://example.org/a.pdf'' ''out'' 60 home_world))
        [''home'', ''out'', ''000'', ''a.pdf.failed.txt'']
      = Some (File (''recieved an error when trying to download'' @ [CHR 0x0A]
                    @ ''http://example.org/a.pdf''))"
proof -
  let ?w1 = "home_world\<lparr>nodes := [[''home''] \<mapsto> Dir, [''home'', ''out''] \<mapsto> Dir,
                                     [''home'', ''out'', ''000''] \<mapsto> Dir],
                          events := [Makedirs ''out/000'']\<rparr>"
  let ?link = "''http://example.org/a.pdf''"
  let ?f = "path_join (path_join ''out'' (zfill 3 (str_int 0))) (basename ?link)"
  let ?n404 = "\<lambda>r::request. (Inr \<lparr>status_code = 404, content = ''Not Found''\<rparr> :: py_exc + response)"
  let ?nto = "\<lambda>r::request. (Inl Timeout :: py_exc + response)"
  let ?nex = "\<lambda>r::request. (Inl RequestException :: py_exc + response)"
  have mk: "makedirs (path_join ''out'' (zfill 3 (str_int 0))) home_world = (Inr (), ?w1)"
    unfolding save_dir_out_0 by (rule makedirs_home)
  have f1: "download ?n404 ?link ?f ?w1 = (Inl HTTPError, ?w1\<lparr>events := events ?w1
        @ [Get \<lparr>url = ?link, req_headers = headers, allow_redirects = True, req_timeout = Some 60\<rparr>]\<rparr>)"
    by (rule download_error_status [where page = "\<lparr>status_code = 404, content = ''Not Found''\<rparr>"]) simp_all
  have f2: "download ?nto ?link ?f ?w1 = (Inl Timeout, ?w1\<lparr>events := events ?w1
        @ [Get \<lparr>url = ?link, req_headers = headers, allow_redirects = True, req_timeout = Some 60\<rparr>]\<rparr>)"
    by (rule download_raises) simp
  have f3: "download ?nex ?link ?f ?w1 = (Inl RequestException, ?w1\<lparr>events := events ?w1
        @ [Get \<lparr>url = ?link, req_headers = headers, allow_redirects = True, req_timeout = Some 60\<rparr>]\<rparr>)"
    by (rule download_raises) simp
  have free: "\<And>e. nodes ?w1 (place home_world ''out'' @ [zfill 3 (str_int 0), basename ?link @ marker_suffix e])
      \<noteq> Some Dir"
    unfolding place_home_out index_0 basename_a_pdf by (simp add: marker_suffix_def)
  show ?thesis
    using save_pdf_failure_marker [OF mk f1 free, of 60]
      save_pdf_failure_marker [OF mk f2 free, of 60]
      save_pdf_failure_marker [OF mk f3 free, of 60]
    unfolding place_home_out index_0 basename_a_pdf
    by (simp add: marker_suffix_def marker_message_def)
qed

text \<open>
  Claim C1 as stated fails where the path of the marker file is an existing directory:
  the request times out, the marker cannot be opened, and when \<open>save_pdf\<close> ends there
  is no file at all in the tree.
\<close>

theorem save_pdf_failure_marker_counterexample:
  "fst (save_pdf (\<lambda>r. Inl Timeout) 0 ''http://example.org/a.pdf'' ''out'' 60 blocked_world)
     = Inl IsADirectoryError
   \<and> \<not> (\<exists>q d. nodes (snd (save_pdf (\<lambda>r. Inl Timeout) 0 ''http://example.org/a.pdf'' ''out'' 60
                          blocked_world)) q = Some (File d))"
proof -
  let ?w1 = "blocked_world\<lparr>events := [Makedirs ''out/000'']\<rparr>"
  let ?link = "''http://example.org/a.pdf''"
  let ?nto = "\<lambda>r::request. (Inl Timeout :: py_exc + response)"
  have mk: "makedirs (path_join ''out'' (zfill 3 (str_int 0))) blocked_world = (Inr (), ?w1)"
    unfolding save_dir_out_0 by (rule makedirs_blocked)
  have f: "download ?nto ?link (path_join ''out'' (zfill 3 (str_int 0)) @ CHR ''/'' # basename ?link) ?w1
      = (Inl Timeout, ?w1\<lparr>events := events ?w1
        @ [Get \<lparr>url = ?link, req_headers = headers, allow_redirects = True, req_timeout = Some 60\<rparr>]\<rparr>)"
    by (rule download_raises) simp
  have blocked: "nodes ?w1 (place blocked_world ''out'' @ [zfill 3 (str_int 0), basename ?link @ marker_suffix Timeout])
      = Some Dir"
    unfolding place_blocked_out index_0 basename_a_pdf by (simp add: marker_suffix_def blocked_world_def)
  show ?thesis
    unfolding save_pdf_failure [OF mk f, of 60] using blocked
    by (simp add: blocked_world_no_file)
qed

text \<open>
  Claim C2, amended. When the result's directory could be created and the download
  attempt raised an exception, \<open>save_pdf\<close> returns normally exactly when the path of the
  marker file is not an existing directory. Then the marker file, inside the result's
  directory, is the only node of the tree that changed. When the path of the marker is
  an existing directory, the \<open>IsADirectoryError\<close> of the marker's \<open>open\<close> propagates out of
  \<open>save_pdf\<close> and the tree is left as it was.
\<close>

theorem save_pdf_contains_download_failure:
  assumes mk: "makedirs (path_join base (zfill 3 (str_int n))) w = (Inr (), w1)"
    and fail: "download net link (path_join (path_join base (zfill 3 (str_int n))) (basename link)) w1
                 = (Inl e, w2)"
  shows "(fst (save_pdf net n link base tmo w) = Inr () \<longleftrightarrow>
            nodes w1 (place w base @ [zfill 3 (str_int n), basename link @ marker_suffix e]) \<noteq> Some Dir)
    \<and> (nodes w1 (place w base @ [zfill 3 (str_int n), basename link @ marker_suffix e]) = Some Dir \<longrightarrow>
          fst (save_pdf net n link base tmo w) = Inl IsADirectoryError
          \<and> nodes (snd (save_pdf net n link base tmo w)) = nodes w1)
    \<and> (nodes w1 (place w base @ [zfill 3 (str_int n), basename link @ marker_suffix e]) \<noteq> Some Dir \<longrightarrow>
          is_file (nodes (snd (save_pdf net n link base tmo w)))
            (place w base @ [zfill 3 (str_int n), basename link @ marker_suffix e])
          \<and> (\<forall>q. q \<noteq> place w base @ [zfill 3 (str_int n), basename link @ marker_suffix e] \<longrightarrow>
                nodes (snd (save_pdf net n link base tmo w)) q = nodes w1 q))"
proof -
  let ?sd = "path_join base (zfill 3 (str_int n))"
  have f': "download net link (?sd @ CHR ''/'' # basename link) w1 = (Inl e, w2)"
    using fail by (simp only: fname_eq)
  have d1: "isdir w1 ?sd" by (rule makedirs_dirs [OF mk])
  have sh: "last ?sd \<noteq> CHR ''/''" using save_dir_shape [of base n] by simp
  have n2: "nodes w2 = nodes w1"
    by (rule download_failure(1) [OF d1 sh basename_no_slash f'])
  show ?thesis
    unfolding save_pdf_failure [OF mk f'] using n2 by (simp add: is_file_def)
qed

theorem save_pdf_contains_download_failure_witness:
  "fst (save_pdf (\<lambda>r. Inr \<lparr>status_code = 503, content = []\<rparr>) 0
          ''http://example.org/a.pdf'' ''out'' 60 home_world) = Inr ()
   \<and> is_file (nodes (snd (save_pdf (\<lambda>r. Inr \<lparr>status_code = 503, content = []\<rparr>) 0
          ''http://example.org/a.pdf'' ''out'' 60 home_world)))
        [''home'', ''out'', ''000'', ''a.pdf.404error.txt'']
   \<and> nodes (snd (save_pdf (\<lambda>r. Inr \<lparr>status_code = 503, content = []\<rparr>) 0
          ''http://example.org/a.pdf'' ''out'' 60 home_world))
        [''home'', ''out'', ''000'', ''a.pdf''] = None"
proof -
  let ?w1 = "home_world\<lparr>nodes := [[''home''] \<mapsto> Dir, [''home'', ''out''] \<mapsto> Dir,
                                     [''home'', ''out'', ''000''] \<mapsto> Dir],
                          events := [Makedirs ''out/000'']\<rparr>"
  let ?link = "''http://example.org/a.pdf''"
  let ?f = "path_join (path_join ''out'' (zfill 3 (str_int 0))) (basename ?link)"
  let ?net = "\<lambda>r::request. (Inr \<lparr>status_code = 503, content = []\<rparr> :: py_exc + response)"
  have mk: "makedirs (path_join ''out'' (zfill 3 (str_int 0))) home_world = (Inr (), ?w1)"
    unfolding save_dir_out_0 by (rule makedirs_home)
  have f1: "download ?net ?link ?f ?w1 = (Inl HTTPError, ?w1\<lparr>events := events ?w1
        @ [Get \<lparr>url = ?link, req_headers = headers, allow_redirects = True, req_timeout = Some 60\<rparr>]\<rparr>)"
    by (rule download_error_status [where page = "\<lparr>status_code = 503, content = []\<rparr>"]) simp_all
  show ?thesis
    using save_pdf_contains_download_failure [OF mk f1, of 60]
    unfolding place_home_out index_0 basename_a_pdf
    by (simp add: marker_suffix_def)
qed

text \<open>
  Claim C2 as stated fails where the path of the marker file is an existing directory:
  the server answers 404 and the exception raised while the marker is opened leaves
  \<open>save_pdf\<close>.
\<close>

theorem save_pdf_contains_download_failure_counterexample:
  "fst (save_pdf (\<lambda>r. Inr \<lparr>status_code = 404, content = ''Not Found''\<rparr>) 0
          ''http://example.org/a.pdf'' ''out'' 60 blocked_world) = Inl IsADirectoryError"
proof -
  let ?w1 = "blocked_world\<lparr>events := [Makedirs ''out/000'']\<rparr>"
  let ?link = "''http://example.org/a.pdf''"
  let ?net = "\<lambda>r::request. (Inr \<lparr>status_code = 404, content = ''Not Found''\<rparr> :: py_exc + response)"
  have mk: "makedirs (path_join ''out'' (zfill 3 (str_int 0))) blocked_world = (Inr (), ?w1)"
    unfolding save_dir_out_0 by (rule makedirs_blocked)
  have f: "download ?net ?link (path_join ''out'' (zfill 3 (str_int 0)) @ CHR ''/'' # basename ?link) ?w1
      = (Inl HTTPError, ?w1\<lparr>events := events ?w1
        @ [Get \<lparr>url = ?link, req_headers = headers, allow_redirects = True, req_timeout = Some 60\<rparr>]\<rparr>)"
    by (rule download_error_status [where page = "\<lparr>status_code = 404, content = ''Not Found''\<rparr>"]) simp_all
  have blocked: "nodes ?w1 (place blocked_world ''out'' @ [zfill 3 (str_int 0), basename ?link @ marker_suffix HTTPError])
      = Some Dir"
    unfolding place_blocked_out index_0 basename_a_pdf by (simp add: marker_suffix_def blocked_world_def)
  show ?thesis
    unfolding save_pdf_failure [OF mk f, of 60] using blocked by simp
qed

lemma download_events:
  "\<exists>es. events (snd (download net link f w)) =
          events w @ Get \<lparr>url = link, req_headers = headers, allow_redirects = True,
                           req_timeout = Some 60\<rparr> # es
        \<and> (\<forall>r. Get r \<notin> set es)"
proof -
  let ?req = "\<lparr>url = link, req_headers = headers, allow_redirects = True, req_timeout = Some 60\<rparr>"
  let ?w1 = "log_event (Get ?req) w"
  show ?thesis
  proof (cases "net ?req")
    case (Inl e)
    then have "events (snd (download net link f w)) = events w @ Get ?req # []"
      by (simp add: download_def requests_get_def)
    then show ?thesis by (intro exI [of _ "[]"]) simp
  next
    case (Inr page)
    show ?thesis
    proof (cases "400 \<le> status_code page \<and> status_code page < 600")
      case True
      then have "events (snd (download net link f w)) = events w @ Get ?req # []"
        using Inr by (simp add: download_def requests_get_def raise_for_status_def)
      then show ?thesis by (intro exI [of _ "[]"]) simp
    next
      case False
      obtain r w2 where o: "open_write f (content page) ?w1 = (r, w2)"
        by (cases "open_write f (content page) ?w1")
      have "download net link f w = (r, w2)"
        using Inr False o by (auto simp: download_def requests_get_def raise_for_status_def)
      then have "events (snd (download net link f w)) = events w @ Get ?req # [OpenWrite f (content page)]"
        using open_write_any(2) [OF o] by simp
      then show ?thesis by (intro exI [of _ "[OpenWrite f (content page)]"]) simp
    qed
  qed
qed



lemma place_after_makedirs:
  assumes mk: "makedirs (path_join base (zfill 3 (str_int n))) w = (Inr (), w1)"
  shows "place w1 (path_join base (zfill 3 (str_int n))) = place w base @ [zfill 3 (str_int n)]"
  using place_cwd [OF makedirs_Inr(2) [OF mk]] place_save_dir [of w base n] by simp



lemma save_pdf_events:
  assumes mk: "makedirs (path_join base (zfill 3 (str_int n))) w = (Inr (), w1)"
  shows "\<exists>es. events (snd (save_pdf net n link base tmo w)) =
          events w1 @ Get \<lparr>url = link, req_headers = headers, allow_redirects = True,
                            req_timeout = Some 60\<rparr> # es
        \<and> (\<forall>r. Get r \<notin> set es)"
proof -
  let ?f = "path_join base (zfill 3 (str_int n)) @ CHR ''/'' # basename link"
  let ?req = "\<lparr>url = link, req_headers = headers, allow_redirects = True, req_timeout = Some 60\<rparr>"
  obtain es where es: "events (snd (download net link ?f w1)) = events w1 @ Get ?req # es"
    and ng: "\<forall>r. Get r \<notin> set es"
    using download_events [of net link ?f w1] by blast
  obtain r2 w2 where dl: "download net link ?f w1 = (r2, w2)" by (cases "download net link ?f w1")
  have e2: "events w2 = events w1 @ Get ?req # es" using es dl by simp
  show ?thesis
  proof (cases r2)
    case (Inr u)
    have "save_pdf net n link base tmo w = (Inr (), w2)"
      using save_pdf_success_lemma [OF mk] dl Inr by simp
    then show ?thesis using e2 ng by simp
  next
    case (Inl e)
    have f: "download net link ?f w1 = (Inl e, w2)" using dl Inl by simp
    have "events (snd (save_pdf net n link base tmo w)) = events w2 @
        [Makedirs (path_join base (zfill 3 (str_int n))),
         OpenWrite (?f @ marker_suffix e) (marker_message e @ link)]"
      unfolding save_pdf_failure [OF mk f] by simp
    then have "events (snd (save_pdf net n link base tmo w)) = events w1 @ Get ?req #
        (es @ [Makedirs (path_join base (zfill 3 (str_int n))),
               OpenWrite (?f @ marker_suffix e) (marker_message e @ link)])"
      using e2 by simp
    moreover have "\<forall>r. Get r \<notin> set (es @ [Makedirs (path_join base (zfill 3 (str_int n))),
               OpenWrite (?f @ marker_suffix e) (marker_message e @ link)])"
      using ng by simp
    ultimately show ?thesis by blast
  qed
qed

section \<open>Downloads that succeed\<close>


lemma makedirs_home_0:
  "makedirs (path_join ''out'' (zfill 3 (str_int 0))) home_world =
     (Inr (), home_world\<lparr>nodes := [[''home''] \<mapsto> Dir, [''home'', ''out''] \<mapsto> Dir,
                                    [''home'', ''out'', ''000''] \<mapsto> Dir],
                         events := [Makedirs ''out/000'']\<rparr>)"
  unfolding save_dir_out_0 by (rule makedirs_home)






section \<open>Links that end in a slash\<close>




section \<open>The timeout of the request\<close>

text \<open>
  Claim C3 does not hold of the code. Whatever timeout \<open>save_pdf\<close> is called with, once
  the result's directory is created it sends exactly one request, and that request
  carries the timeout 60: the argument is never read.
\<close>

theorem save_pdf_timeout_ignored:
  assumes mk: "makedirs (path_join base (zfill 3 (str_int n))) w = (Inr (), w1)"
  shows "save_pdf net n link base tmo w = save_pdf net n link base 60 w
    \<and> (\<exists>es. events (snd (save_pdf net n link base tmo w)) =
          events w1 @ Get \<lparr>url = link, req_headers = headers, allow_redirects = True,
                            req_timeout = Some 60\<rparr> # es
        \<and> (\<forall>r. Get r \<notin> set es))"
proof -
  have same: "save_pdf net n link base tmo w = save_pdf net n link base 60 w"
    by (simp add: save_pdf_def)
  show ?thesis using same save_pdf_events [OF mk, of net link tmo] by blast
qed

theorem save_pdf_timeout_ignored_witness:
  "save_pdf (\<lambda>r. if req_timeout r = Some 5 then Inl Timeout
                  else Inr \<lparr>status_code = 200, content = ''slow''\<rparr>) 0
      ''http://example.org/a.pdf'' ''out'' 5 home_world
   = save_pdf (\<lambda>r. if req_timeout r = Some 5 then Inl Timeout
                    else Inr \<lparr>status_code = 200, content = ''slow''\<rparr>) 0
      ''http://example.org/a.pdf'' ''out'' 60 home_world
   \<and> (\<exists>es. events (snd (save_pdf (\<lambda>r. if req_timeout r = Some 5 then Inl Timeout
                    else Inr \<lparr>status_code = 200, content = ''slow''\<rparr>) 0
      ''http://example.org/a.pdf'' ''out'' 5 home_world)) =
        [Makedirs ''out/000'',
         Get \<lparr>url = ''http://example.org/a.pdf'', req_headers = headers, allow_redirects = True,
              req_timeout = Some 60\<rparr>] @ es
        \<and> (\<forall>r. Get r \<notin> set es))"
proof -
  let ?net = "\<lambda>r. if req_timeout r = Some 5 then (Inl Timeout :: py_exc + response)
                  else Inr \<lparr>status_code = 200, content = ''slow''\<rparr>"
  let ?w1 = "home_world\<lparr>nodes := [[''home''] \<mapsto> Dir, [''home'', ''out''] \<mapsto> Dir,
                                     [''home'', ''out'', ''000''] \<mapsto> Dir],
                          events := [Makedirs ''out/000'']\<rparr>"
  note t = save_pdf_timeout_ignored [OF makedirs_home_0, of ?net "''http://example.org/a.pdf''" 5]
  from t have a: "save_pdf ?net 0 ''http://example.org/a.pdf'' ''out'' 5 home_world
      = save_pdf ?net 0 ''http://example.org/a.pdf'' ''out'' 60 home_world"
    by (rule conjunct1)
  from t obtain es where
    e: "events (snd (save_pdf ?net 0 ''http://example.org/a.pdf'' ''out'' 5 home_world)) =
          events ?w1 @ Get \<lparr>url = ''http://example.org/a.pdf'', req_headers = headers,
                              allow_redirects = True, req_timeout = Some 60\<rparr> # es"
    and g: "\<forall>r. Get r \<notin> set es"
    by blast
  have "events ?w1 = [Makedirs ''out/000'']" by simp
  with e have "events (snd (save_pdf ?net 0 ''http://example.org/a.pdf'' ''out'' 5 home_world)) =
        [Makedirs ''out/000'',
         Get \<lparr>url = ''http://example.org/a.pdf'', req_headers = headers, allow_redirects = True,
              req_timeout = Some 60\<rparr>] @ es"
    by simp
  with g have "\<exists>es. events (snd (save_pdf ?net 0 ''http://example.org/a.pdf'' ''out'' 5 home_world)) =
        [Makedirs ''out/000'',
         Get \<lparr>url = ''http://example.org/a.pdf'', req_headers = headers, allow_redirects = True,
              req_timeout = Some 60\<rparr>] @ es \<and> (\<forall>r. Get r \<notin> set es)"
    by blast
  with a show ?thesis by (rule conjI)
qed

lemma start_dir_append: "a \<noteq> [] \<Longrightarrow> start_dir w (a @ b) = start_dir w a"
  by (cases a) (simp_all add: start_dir_def)

lemma walk_join:
  assumes d: "isdir w a" and pl: "plain_name b"
  shows "walk (nodes w) (start_dir w (path_join a b)) (split_sep (path_join a b)) =
     Inr (place w a @ [b])"
proof -
  note l = isdir_lookup [OF d]
  have ns: "CHR ''/'' \<notin> set b" using pl by (simp add: plain_name_def)
  show ?thesis
  proof (cases "last a = CHR ''/''")
    case False
    then have "path_join a b = a @ CHR ''/'' # b" using l(1) ns by (simp add: path_join_plain)
    then show ?thesis using walk_in_dir [OF d ns] step_plain [OF pl] by simp
  next
    case True
    with l(1) obtain x where a: "a = x @ [CHR ''/'']" by (metis append_butlast_last_id)
    have pj: "path_join a b = x @ CHR ''/'' # b" using True ns a by (simp add: path_join_plain)
    have s1: "split_sep a = split_sep x @ [[]]"
      using split_sep_slash [of x "[]"] a by simp
    have s2: "split_sep (x @ CHR ''/'' # b) = split_sep x @ [b]"
      by (simp add: split_sep_slash split_sep_plain [OF ns])
    have sd: "start_dir w (x @ CHR ''/'' # b) = start_dir w a"
      using start_dir_append [OF l(1), of w b] a by simp
    obtain q where q: "walk (nodes w) (start_dir w a) (split_sep x) = Inr q"
      and dq: "is_dir (nodes w) q" and pq: "q = place w a"
      using l(2) unfolding s1 walk_append
      by (cases "walk (nodes w) (start_dir w a) (split_sep x)") (auto simp: step_def split: if_splits)
    show ?thesis
      unfolding pj sd s2 walk_append q using dq pq step_plain [OF pl] by simp
  qed
qed

lemma path_join_last_char:
  assumes "plain_name b"
  shows "path_join a b \<noteq> []" and "last (path_join a b) \<noteq> CHR ''/''"
  using path_join_last [of b a] assms by (simp_all add: plain_name_def)

lemma names_directory_join:
  assumes "plain_name b"
  shows "\<not> names_directory (path_join a b)"
proof -
  have ns: "CHR ''/'' \<notin> set b" using assms by (simp add: plain_name_def)
  have "last (split_sep (path_join a b)) = b"
  proof (cases "a = []")
    case True
    then show ?thesis using ns assms by (simp add: path_join_plain split_sep_plain)
  next
    case False
    show ?thesis
    proof (cases "last a = CHR ''/''")
      case True
      with False obtain x where a: "a = x @ [CHR ''/'']" by (metis append_butlast_last_id)
      then have "path_join a b = x @ CHR ''/'' # b" using True ns by (simp add: path_join_plain)
      then show ?thesis by (simp add: split_sep_slash split_sep_plain [OF ns])
    next
      case nl: False
      then have "path_join a b = a @ CHR ''/'' # b" using False ns by (simp add: path_join_plain)
      then show ?thesis by (simp add: split_sep_slash split_sep_plain [OF ns])
    qed
  qed
  then show ?thesis using assms by (simp add: names_directory_def plain_name_def)
qed

lemma open_target_join:
  assumes d: "isdir w a" and pl: "plain_name b"
  shows "open_target w (path_join a b) =
     (if nodes w (place w a @ [b]) = Some Dir then Inl IsADirectoryError
      else Inr (place w a @ [b]))"
proof -
  note sh = path_join_last_char [OF pl, of a]
  have s: "strip_slashes (path_join a b) = path_join a b" by (rule strip_slashes_id [OF sh])
  show ?thesis
    unfolding open_target_def s walk_join [OF d pl]
    using sh(1) names_directory_join [OF pl, of a] by (simp add: is_dir_def)
qed

lemma open_write_join:
  assumes "isdir w a" and "plain_name b"
  shows "open_write (path_join a b) data w =
     (if nodes w (place w a @ [b]) = Some Dir
        then (Inl IsADirectoryError, w\<lparr>events := events w @ [OpenWrite (path_join a b) data]\<rparr>)
      else (Inr (), w\<lparr>nodes := (nodes w)(place w a @ [b] \<mapsto> File data),
                      events := events w @ [OpenWrite (path_join a b) data]\<rparr>))"
  unfolding open_write_def Let_def open_target_log_event open_target_join [OF assms]
  by (simp add: log_event_def)

lemma open_append_join:
  assumes "isdir w a" and "plain_name b"
  shows "open_append (path_join a b) data w =
     (if nodes w (place w a @ [b]) = Some Dir
        then (Inl IsADirectoryError, w\<lparr>events := events w @ [OpenAppend (path_join a b) data]\<rparr>)
      else (Inr (), w\<lparr>nodes := (nodes w)(place w a @ [b] \<mapsto>
                        File ((case nodes w (place w a @ [b]) of Some (File old) \<Rightarrow> old | _ \<Rightarrow> [])
                              @ data)),
                      events := events w @ [OpenAppend (path_join a b) data]\<rparr>))"
  unfolding open_append_def Let_def open_target_log_event open_target_join [OF assms]
  by (simp add: log_event_def)

lemma isfile_join:
  assumes d: "isdir w a" and pl: "plain_name b"
  shows "isfile w (path_join a b) = is_file (nodes w) (place w a @ [b])"
  unfolding isfile_def lookup_def walk_join [OF d pl]
  using path_join_last_char(1) [OF pl, of a] by simp

lemma isdir_mono:
  assumes c: "cwd w' = cwd w" and m: "\<And>x. is_dir (nodes w) x \<Longrightarrow> is_dir (nodes w') x"
    and d: "isdir w a"
  shows "isdir w' a"
proof -
  note l = isdir_lookup [OF d]
  have sd: "start_dir w' a = start_dir w a" by (rule start_dir_cwd [OF c])
  have "walk (nodes w') (start_dir w' a) (split_sep a) = Inr (place w a)"
    unfolding sd by (rule walk_mono [OF m l(2)])
  then show ?thesis using l(1) m [OF l(3)] by (intro isdirI) simp_all
qed

lemma isdir_write_file:
  assumes d: "isdir w a" and nd: "nodes w q \<noteq> Some Dir"
  shows "isdir (w\<lparr>nodes := (nodes w)(q \<mapsto> File data), events := es\<rparr>) a"
proof (rule isdir_mono [OF _ _ d])
  show "cwd (w\<lparr>nodes := (nodes w)(q \<mapsto> File data), events := es\<rparr>) = cwd w" by simp
next
  fix x
  assume "is_dir (nodes w) x"
  then show "is_dir (nodes (w\<lparr>nodes := (nodes w)(q \<mapsto> File data), events := es\<rparr>)) x"
    using nd by (auto simp: is_dir_def)
qed

lemma plain_website_link: "plain_name ''website_link.txt''"
  by (simp add: plain_name_def)

lemma plain_results_summary: "plain_name ''results_summary.csv''"
  by (simp add: plain_name_def)

lemma save_link_exec:
  assumes mk: "makedirs (path_join base (zfill 3 (str_int n))) w = (Inr (), w1)"
  shows "save_link n link base w =
     (if nodes w1 (place w base @ [zfill 3 (str_int n), ''website_link.txt'']) = Some Dir
        then (Inl IsADirectoryError,
              w1\<lparr>events := events w1 @
                 [OpenWrite (path_join (path_join base (zfill 3 (str_int n))) ''website_link.txt'') link]\<rparr>)
      else (Inr (),
            w1\<lparr>nodes := (nodes w1)(place w base @ [zfill 3 (str_int n), ''website_link.txt'']
                      \<mapsto> File link),
               events := events w1 @
                 [OpenWrite (path_join (path_join base (zfill 3 (str_int n))) ''website_link.txt'') link]\<rparr>))"
proof -
  have d1: "isdir w1 (path_join base (zfill 3 (str_int n)))" by (rule makedirs_dirs [OF mk])
  show ?thesis
    unfolding save_link_def Let_def mk and_then_Inr
      open_write_join [OF d1 plain_website_link] place_after_makedirs [OF mk]
    by simp
qed

lemma save_link_raise:
  assumes mk: "makedirs (path_join base (zfill 3 (str_int n))) w = (Inl e, w1)"
  shows "save_link n link base w = (Inl e, w1)"
  unfolding save_link_def Let_def mk and_then_Inl ..

lemma results_summary_exec:
  assumes mk: "makedirs base w = (Inr (), w1)"
    and nd: "nodes w1 (place w base @ [''results_summary.csv'']) \<noteq> Some Dir"
  shows "results_summary n ttl link base w =
     (Inr (),
      w1\<lparr>nodes := (nodes w1)(place w base @ [''results_summary.csv''] \<mapsto>
                File ((case nodes w1 (place w base @ [''results_summary.csv'']) of
                         Some (File old) \<Rightarrow> old
                       | _ \<Rightarrow> ''search number, title, link'' @ [CHR 0x0A])
                      @ zfill 3 (str_int n) @ '', '' @ ttl @ '', '' @ link @ [CHR 0x0A])),
         events := events w1 @
           (if is_file (nodes w1) (place w base @ [''results_summary.csv'']) then []
            else [OpenWrite (path_join base ''results_summary.csv'')
                    (''search number, title, link'' @ [CHR 0x0A])])
           @ [OpenAppend (path_join base ''results_summary.csv'')
                (zfill 3 (str_int n) @ '', '' @ ttl @ '', '' @ link @ [CHR 0x0A])]\<rparr>)"
proof -
  let ?t = "place w base @ [''results_summary.csv'']"
  let ?sf = "path_join base ''results_summary.csv''"
  let ?hd = "''search number, title, link'' @ [CHR 0x0A]"
  let ?row = "zfill 3 (str_int n) @ '', '' @ ttl @ '', '' @ link @ [CHR 0x0A]"
  have d1: "isdir w1 base" by (rule makedirs_dirs [OF mk])
  have p1: "place w1 base = place w base" by (rule place_cwd [OF makedirs_Inr(2) [OF mk]])
  have isf: "isfile w1 ?sf = is_file (nodes w1) ?t"
    using isfile_join [OF d1 plain_results_summary] p1 by simp
  have unf: "results_summary n ttl link base w =
      and_then (if \<not> is_file (nodes w1) ?t then open_write ?sf ?hd w1 else (Inr (), w1))
        (\<lambda>_ w. open_append ?sf ?row w)"
    unfolding results_summary_def Let_def mk and_then_Inr isf ..
  show ?thesis
  proof (cases "is_file (nodes w1) ?t")
    case True
    then obtain old where old: "nodes w1 ?t = Some (File old)"
      by (auto simp: is_file_def split: option.splits node.splits)
    show ?thesis
      unfolding unf using True old open_append_join [OF d1 plain_results_summary, of ?row] p1
      by simp
  next
    case False
    then have none: "nodes w1 ?t = None"
      using nd by (cases "nodes w1 ?t") (auto simp: is_file_def split: node.splits)
    let ?w2 = "w1\<lparr>nodes := (nodes w1)(?t \<mapsto> File ?hd), events := events w1 @ [OpenWrite ?sf ?hd]\<rparr>"
    have ow: "open_write ?sf ?hd w1 = (Inr (), ?w2)"
      using open_write_join [OF d1 plain_results_summary, of ?hd] p1 none by simp
    have d2: "isdir ?w2 base" by (rule isdir_write_file [OF d1 nd [unfolded p1 [symmetric]], unfolded p1])
    have p2: "place ?w2 base = place w base" using p1 by simp
    have oa: "open_append ?sf ?row ?w2 =
       (Inr (), ?w2\<lparr>nodes := (nodes ?w2)(?t \<mapsto> File (?hd @ ?row)),
                    events := events ?w2 @ [OpenAppend ?sf ?row]\<rparr>)"
      using open_append_join [OF d2 plain_results_summary, of ?row] unfolding p2 by simp
    show ?thesis
      unfolding unf using False none ow oa by simp
  qed
qed

lemma sign_not_digit: "CHR ''+'' \<notin> set decimal_digits" "CHR ''-'' \<notin> set decimal_digits"
  by (simp_all add: decimal_digits_def)

lemma hd_str_nat_digit: "hd (str_nat m) \<in> set decimal_digits"
  using str_nat_digits [of m] str_nat_nonempty [of m] hd_in_set [of "str_nat m"] by blast

lemma zfill_str_nat:
  "zfill 3 (str_nat m) = replicate (3 - length (str_nat m)) CHR ''0'' @ str_nat m"
proof -
  have "hd (str_nat m) \<noteq> CHR ''+''" "hd (str_nat m) \<noteq> CHR ''-''"
    using hd_str_nat_digit [of m] sign_not_digit by metis+
  then show ?thesis by (simp add: zfill_def)
qed

lemma zfill_zero_padded3:
  assumes "0 \<le> n"
  shows "zfill 3 (str_int n) = zero_padded3 n"
  using assms zfill_str_nat [of "nat n"] by (simp add: str_int_def zero_padded3_def)

lemma zero_padded3_length: "3 \<le> length (zero_padded3 n)"
  by (simp add: zero_padded3_def)

lemma str_nat_length: "10 \<le> m \<Longrightarrow> length (str_nat m) = Suc (length (str_nat (m div 10)))"
  by (subst str_nat.simps) simp

lemma str_nat_length_100:
  assumes "100 \<le> m"
  shows "3 \<le> length (str_nat m)"
proof -
  have a: "10 \<le> m" and b: "10 \<le> m div 10" using assms by simp_all
  have "1 \<le> length (str_nat (m div 10 div 10))"
    using str_nat_nonempty [of "m div 10 div 10"] by (simp add: Suc_le_eq)
  then show ?thesis using str_nat_length [OF a] str_nat_length [OF b] by simp
qed

lemma str_nat_length_1000:
  assumes "1000 \<le> m"
  shows "4 \<le> length (str_nat m)"
proof -
  have a: "10 \<le> m" and b: "100 \<le> m div 10" using assms by simp_all
  show ?thesis using str_nat_length [OF a] str_nat_length_100 [OF b] by simp
qed

lemma zero_padded3_large:
  assumes "100 \<le> n"
  shows "zero_padded3 n = str_nat (nat n)"
proof -
  have "100 \<le> nat n" using assms by simp
  from str_nat_length_100 [OF this] show ?thesis by (simp add: zero_padded3_def)
qed

lemma digit_value_digit_char:
  assumes "d < 10"
  shows "digit_value (digit_char d) = d"
proof -
  from assms have "d = 0 \<or> d = 1 \<or> d = 2 \<or> d = 3 \<or> d = 4 \<or> d = 5
      \<or> d = 6 \<or> d = 7 \<or> d = 8 \<or> d = 9"
    by arith
  then show ?thesis
    by (elim disjE) (simp_all add: digit_value_def digit_char_def decimal_digits_def)
qed

lemma digits_value_snoc: "digits_value (s @ [c]) = 10 * digits_value s + digit_value c"
  by (simp add: digits_value_def)

lemma digits_value_str_nat: "digits_value (str_nat m) = m"
proof (induction m rule: str_nat.induct)
  case (1 n)
  show ?case
  proof (cases "n < 10")
    case True
    then show ?thesis
      by (subst str_nat.simps) (simp add: digits_value_def digit_value_digit_char)
  next
    case False
    have "digits_value (str_nat n) = 10 * digits_value (str_nat (n div 10)) + digit_value (digit_char (n mod 10))"
      using False by (subst str_nat.simps) (simp add: digits_value_snoc)
    also have "\<dots> = 10 * (n div 10) + n mod 10"
      using 1 [OF False] by (simp add: digit_value_digit_char)
    finally show ?thesis by simp
  qed
qed

lemma basename_slash:
  assumes "CHR ''/'' \<notin> set b"
  shows "basename (a @ CHR ''/'' # b) = b"
proof -
  have "takeWhile (\<lambda>c. c \<noteq> CHR ''/'') (rev b @ CHR ''/'' # rev a) = rev b"
    using assms by (induction b rule: rev_induct) auto
  then show ?thesis by (simp add: basename_def)
qed

section \<open>Links that are not downloaded\<close>

lemma place_website_link:
  "place w (path_join (path_join base (zfill 3 (str_int n))) ''website_link.txt'') =
     place w base @ [zfill 3 (str_int n), ''website_link.txt'']"
  using place_join [OF plain_website_link, of w "path_join base (zfill 3 (str_int n))"]
    place_save_dir [of w base n]
  by simp

text \<open>
  Claim C6. \<open>save_link\<close> first creates the result's directory
  \<open><base_dir>/<index>\<close>; an exception of that step leaves \<open>save_link\<close> as it is. Then it
  opens \<open>website_link.txt\<close> in that directory once: the node
  \<open><base_dir>/<index>/website_link.txt\<close> becomes a file whose content is the link, and
  no other node changes; when that node is a directory the \<open>IsADirectoryError\<close> of the
  \<open>open\<close> leaves \<open>save_link\<close>. No request is sent and no marker is written.
\<close>

theorem save_link_writes_link:
  assumes mk: "makedirs (path_join base (zfill 3 (str_int n))) w = (r, w1)"
  shows "save_link n link base w =
     (case r of
        Inl e \<Rightarrow> (Inl e, w1)
      | Inr u \<Rightarrow>
          if nodes w1 (place w base @ [zfill 3 (str_int n), ''website_link.txt'']) = Some Dir
            then (Inl IsADirectoryError,
                  w1\<lparr>events := events w1 @
                     [OpenWrite (path_join (path_join base (zfill 3 (str_int n))) ''website_link.txt'') link]\<rparr>)
          else (Inr (),
                w1\<lparr>nodes := (nodes w1)(place w base @ [zfill 3 (str_int n), ''website_link.txt'']
                          \<mapsto> File link),
                   events := events w1 @
                     [OpenWrite (path_join (path_join base (zfill 3 (str_int n))) ''website_link.txt'') link]\<rparr>))
    \<and> place w (path_join (path_join base (zfill 3 (str_int n))) ''website_link.txt'') =
        place w base @ [zfill 3 (str_int n), ''website_link.txt'']
    \<and> events w1 = events w @ [Makedirs (path_join base (zfill 3 (str_int n)))]
    \<and> (r = Inr () \<longrightarrow> isdir w1 (path_join base (zfill 3 (str_int n))))"
proof -
  have ev: "events w1 = events w @ [Makedirs (path_join base (zfill 3 (str_int n)))]"
    by (rule makedirs_any(2) [OF mk])
  show ?thesis
  proof (cases r)
    case (Inl e)
    then show ?thesis
      using save_link_raise [of base n w e w1 link] mk ev place_website_link [of w base n] by simp
  next
    case (Inr u)
    then have mk': "makedirs (path_join base (zfill 3 (str_int n))) w = (Inr (), w1)"
      using mk by simp
    show ?thesis
      using Inr save_link_exec [OF mk', of link] makedirs_dirs [OF mk'] ev
        place_website_link [of w base n]
      by simp
  qed
qed

theorem save_link_writes_link_witness:
  "fst (save_link 0 ''http://example.org/page?id=1'' ''out'' home_world) = Inr ()
   \<and> nodes (snd (save_link 0 ''http://example.org/page?id=1'' ''out'' home_world)) =
        [[''home''] \<mapsto> Dir, [''home'', ''out''] \<mapsto> Dir, [''home'', ''out'', ''000''] \<mapsto> Dir,
         [''home'', ''out'', ''000'', ''website_link.txt''] \<mapsto> File ''http://example.org/page?id=1'']
   \<and> events (snd (save_link 0 ''http://example.org/page?id=1'' ''out'' home_world)) =
        [Makedirs ''out/000'', OpenWrite ''out/000/website_link.txt'' ''http://example.org/page?id=1'']"
  using save_link_writes_link [OF makedirs_home_0, of "''http://example.org/page?id=1''"]
  unfolding place_home_out index_0 save_dir_out_0
  by (simp add: path_join_def)

section \<open>The summary file\<close>

lemma place_summary:
  "place w (path_join base ''results_summary.csv'') = place w base @ [''results_summary.csv'']"
  by (rule place_join [OF plain_results_summary])

lemma makedirs_home_out:
  "makedirs ''out'' home_world =
     (Inr (), home_world\<lparr>nodes := [[''home''] \<mapsto> Dir, [''home'', ''out''] \<mapsto> Dir],
                         events := [Makedirs ''out'']\<rparr>)"
  by (simp add: makedirs_def Let_def start_dir_def home_world_def log_event_def is_file_def
      is_dir_def step_def)

lemma index_7: "zfill 3 (str_int 7) = ''007''"
  by (simp add: zfill_def str_int_def str_nat.simps digit_char_def decimal_digits_def eval_nat_numeral)

text \<open>
  Claim C8. When the base directory could be created and the path of the summary file
  is not a directory, \<open>results_summary\<close> returns normally and the summary file is what
  it was before, or the header line \<open>search number, title, link\<close> when there was no
  file, followed by the row: the index field, a comma and a space, the title as it is,
  a comma and a space, the link as it is, and a line feed. The file is opened for
  writing only when it did not exist. For a non-negative index the index field is the
  decimal number filled with zeros to three characters.
\<close>

theorem results_summary_row:
  assumes mk: "makedirs base w = (Inr (), w1)"
    and nd: "nodes w1 (place w base @ [''results_summary.csv'']) \<noteq> Some Dir"
  shows "results_summary n ttl link base w =
     (Inr (),
      w1\<lparr>nodes := (nodes w1)(place w base @ [''results_summary.csv''] \<mapsto>
                File ((case nodes w1 (place w base @ [''results_summary.csv'']) of
                         Some (File old) \<Rightarrow> old
                       | _ \<Rightarrow> ''search number, title, link'' @ [CHR 0x0A])
                      @ zfill 3 (str_int n) @ '', '' @ ttl @ '', '' @ link @ [CHR 0x0A])),
         events := events w1 @
           (if is_file (nodes w1) (place w base @ [''results_summary.csv'']) then []
            else [OpenWrite (path_join base ''results_summary.csv'')
                    (''search number, title, link'' @ [CHR 0x0A])])
           @ [OpenAppend (path_join base ''results_summary.csv'')
                (zfill 3 (str_int n) @ '', '' @ ttl @ '', '' @ link @ [CHR 0x0A])]\<rparr>)
    \<and> place w (path_join base ''results_summary.csv'') = place w base @ [''results_summary.csv'']
    \<and> (0 \<le> n \<longrightarrow> zfill 3 (str_int n) = zero_padded3 n)"
  using results_summary_exec [OF mk nd, of n ttl link] place_summary [of w base]
    zfill_zero_padded3 [of n]
  by blast

theorem results_summary_row_witness:
  "fst (results_summary 7 ''Smith, J., A report'' ''http://example.org/a,b.pdf'' ''out'' home_world)
     = Inr ()
   \<and> nodes (snd (results_summary 7 ''Smith, J., A report'' ''http://example.org/a,b.pdf'' ''out''
                   home_world)) [''home'', ''out'', ''results_summary.csv'']
     = Some (File (''search number, title, link'' @ [CHR 0x0A]
                   @ ''007, Smith, J., A report, http://example.org/a,b.pdf'' @ [CHR 0x0A]))
   \<and> events (snd (results_summary 7 ''Smith, J., A report'' ''http://example.org/a,b.pdf'' ''out''
                   home_world))
     = [Makedirs ''out'',
        OpenWrite ''out/results_summary.csv'' (''search number, title, link'' @ [CHR 0x0A]),
        OpenAppend ''out/results_summary.csv''
          (''007, Smith, J., A report, http://example.org/a,b.pdf'' @ [CHR 0x0A])]"
proof -
  let ?w1 = "home_world\<lparr>nodes := [[''home''] \<mapsto> Dir, [''home'', ''out''] \<mapsto> Dir],
                          events := [Makedirs ''out'']\<rparr>"
  have nd: "nodes ?w1 (place home_world ''out'' @ [''results_summary.csv'']) \<noteq> Some Dir"
    unfolding place_home_out by simp
  show ?thesis
    using results_summary_row [OF makedirs_home_out nd, of 7 "''Smith, J., A report''"
        "''http://example.org/a,b.pdf''"]
    unfolding place_home_out index_7
    by (simp add: path_join_def is_file_def)
qed

end
